theory Spec2Isabelle
  imports Complex_Main
begin

section \<open>Errors\<close>

text \<open>
  The exceptions the Python code and the library calls it makes can raise. Every \<^verbatim>\<open>raise\<close>
  is a value \<open>Inl e\<close> of a result type \<open>error + 'a\<close>.
\<close>

datatype error =
    FileNotFoundError
  | FileExistsError
  | PermissionError
  | CvError
  | ValueError
  | RuntimeError
  | StopIteration
  | ZeroDivisionError

section \<open>Image Loader: \<^verbatim>\<open>load_data\<close> (face.py)\<close>

subsection \<open>The labels file as a text stream\<close>

text \<open>
  \<^verbatim>\<open>label_file.readline()\<close> returns the text up to and including the next newline, the
  rest of the file when no newline is left, and the empty string at end of file. The state
  of the open file is the text not yet read; \<open>readline\<close> returns the line and the new state.
\<close>

fun readline :: "string \<Rightarrow> string \<times> string" where
  "readline [] = ([], [])"
| "readline (c # cs) =
     (if c = CHR 0x0A then ([c], cs)
      else (case readline cs of (l, r) \<Rightarrow> (c # l, r)))"

lemma readline_length: "length (snd (readline s)) \<le> length s"
  by (induction s) (auto split: prod.splits)

lemma readline_shorter: "s \<noteq> [] \<Longrightarrow> length (snd (readline s)) < length s"
proof (cases s)
  case Nil
  then show "s \<noteq> [] \<Longrightarrow> ?thesis" by simp
next
  case (Cons c cs)
  have "length (snd (readline cs)) \<le> length cs" by (rule readline_length)
  then show ?thesis using Cons by (auto split: prod.splits)
qed

text \<open>
  The lines of a file: what successive calls of \<open>readline\<close> return before the empty string.
\<close>

function file_lines :: "string \<Rightarrow> string list" where
  "file_lines s = (if s = [] then [] else fst (readline s) # file_lines (snd (readline s)))"
  by pat_completeness auto
termination
  by (relation "measure length") (auto simp: readline_shorter)

declare file_lines.simps [simp del]

subsection \<open>\<^verbatim>\<open>line.split(" ")[0]\<close> and \<^verbatim>\<open>int(...)\<close>\<close>

text \<open>The first element of \<^verbatim>\<open>s.split(" ")\<close> is the text before the first space.\<close>

definition first_field :: "string \<Rightarrow> string" where
  "first_field s = takeWhile (\<lambda>c. c \<noteq> CHR '' '') s"

text \<open>
  Python's \<^verbatim>\<open>int(s)\<close> on a string, base 10: surrounding ASCII whitespace (space, tab,
  newline, vertical tab, form feed, carriage return) is dropped, one sign is allowed, then
  decimal digits with single underscores between digits. Anything else, the empty string
  included, raises \<^verbatim>\<open>ValueError\<close>, and so does a number of more than 4300 digits (the
  interpreter's default limit for the conversion). Characters are bytes here, so the model
  covers ASCII text.
\<close>

definition is_space :: "char \<Rightarrow> bool" where
  "is_space c \<longleftrightarrow> c \<in> set [CHR '' '', CHR 0x09, CHR 0x0A, CHR 0x0B, CHR 0x0C, CHR 0x0D]"

definition is_digit :: "char \<Rightarrow> bool" where
  "is_digit c \<longleftrightarrow> (48::nat) \<le> of_char c \<and> (of_char c :: nat) \<le> 57"

definition digit_val :: "char \<Rightarrow> int" where
  "digit_val c = int (of_char c) - 48"

definition strip :: "string \<Rightarrow> string" where
  "strip s = rev (dropWhile is_space (rev (dropWhile is_space s)))"

fun digits_val :: "int \<Rightarrow> bool \<Rightarrow> string \<Rightarrow> int option" where
  "digits_val acc prev [] = (if prev then Some acc else None)"
| "digits_val acc prev (c # cs) =
     (if is_digit c then digits_val (10 * acc + digit_val c) True cs
      else if c = CHR ''_'' \<and> prev then digits_val acc False cs
      else None)"

definition int_max_str_digits :: nat where
  "int_max_str_digits = 4300"

definition parse_digits :: "string \<Rightarrow> int option" where
  "parse_digits s =
     (if int_max_str_digits < length (filter is_digit s) then None
      else digits_val 0 False s)"

definition py_int :: "string \<Rightarrow> int option" where
  "py_int s =
     (case strip s of
        [] \<Rightarrow> None
      | c # cs \<Rightarrow>
          if c = CHR ''-'' then map_option uminus (parse_digits cs)
          else if c = CHR ''+'' then parse_digits cs
          else parse_digits (c # cs))"

subsection \<open>The data directory and the loader\<close>

text \<open>
  A data directory as \<open>load_data\<close> sees it: the text of \<^verbatim>\<open>labels.txt\<close> as text mode
  reads it, with every line end already a newline character (\<open>None\<close> when the file
  cannot be opened), and the listing of the \<^verbatim>\<open>files\<close> subdirectory in \<^verbatim>\<open>os.listdir\<close> order
  (\<open>None\<close> when the directory is missing). An entry of the listing is what \<^verbatim>\<open>cv2.imread\<close>
  returns for it: \<open>None\<close> for a file it cannot decode.
\<close>

record 'raw data_dir =
  labels_txt :: "string option"
  files :: "'raw option list option"

text \<open>
  The body of the \<^verbatim>\<open>for image in os.listdir(data_path)\<close> loop. \<open>tf\<close> stands for the
  conversion chain \<^verbatim>\<open>cvtColor\<close>, \<^verbatim>\<open>resize\<close>, \<^verbatim>\<open>ToTensor\<close>, \<^verbatim>\<open>np.array\<close> on a decoded
  image; \<^verbatim>\<open>cvtColor\<close> raises on the \<^verbatim>\<open>None\<close> of an undecodable file. The loop state is the
  unread text of the labels file and the two lists built so far.
\<close>

fun load_loop ::
  "('raw \<Rightarrow> 'img) \<Rightarrow> 'raw option list \<Rightarrow> string \<Rightarrow> 'img list \<Rightarrow> int list
     \<Rightarrow> error + ('img list \<times> int list)" where
  "load_loop tf [] label_file images labels = Inr (images, labels)"
| "load_loop tf (entry # rest) label_file images labels =
     (case entry of
        None \<Rightarrow> Inl CvError
      | Some img \<Rightarrow>
          (case readline label_file of
             (line, label_file') \<Rightarrow>
               (case py_int (first_field line) of
                  None \<Rightarrow> Inl ValueError
                | Some line_data \<Rightarrow>
                    load_loop tf rest label_file' (images @ [tf img]) (labels @ [line_data]))))"

definition load_data ::
  "('raw \<Rightarrow> 'img) \<Rightarrow> 'raw data_dir \<Rightarrow> error + ('img list \<times> int list)" where
  "load_data tf data_dir =
     (case labels_txt data_dir of
        None \<Rightarrow> Inl FileNotFoundError
      | Some label_file \<Rightarrow>
          (case files data_dir of
             None \<Rightarrow> Inl FileNotFoundError
           | Some listing \<Rightarrow> load_loop tf listing label_file [] []))"

section \<open>Dataset Splitter: \<^verbatim>\<open>train_test_split\<close> as called by \<^verbatim>\<open>main\<close> (face.py)\<close>

text \<open>
  \<^verbatim>\<open>main\<close> splits with scikit-learn's \<^verbatim>\<open>train_test_split(X, y, test_size=TEST_SIZE)\<close>.
  The library function is modelled from its documented behaviour: the test share is
  \<open>ceil(test_size * n_samples)\<close>, the train share is the rest, an empty train set is
  refused with \<^verbatim>\<open>ValueError\<close>, and the samples are dealt out along a random permutation
  of the indices, the test indices first. The permutation the random generator draws is
  an argument of the model. The ratio is a real number: the rounding of the float product
  is outside the model.
\<close>

definition TEST_SIZE :: real where
  "TEST_SIZE = 3 / 10"

definition validate_shuffle_split :: "nat \<Rightarrow> real \<Rightarrow> error + (nat \<times> nat)" where
  "validate_shuffle_split n_samples test_size =
     (if test_size \<le> 0 \<or> test_size \<ge> 1 then Inl ValueError
      else
        let n_test = nat \<lceil>test_size * real n_samples\<rceil>;
            n_train = n_samples - n_test
        in if n_train = 0 then Inl ValueError else Inr (n_train, n_test))"

definition train_test_split ::
  "nat list \<Rightarrow> real \<Rightarrow> 'a list \<Rightarrow> 'b list \<Rightarrow> error + ('a list \<times> 'a list \<times> 'b list \<times> 'b list)" where
  "train_test_split permutation test_size X y =
     (if length X \<noteq> length y then Inl ValueError
      else
        (case validate_shuffle_split (length X) test_size of
           Inl e \<Rightarrow> Inl e
         | Inr (n_train, n_test) \<Rightarrow>
             let ind_test = take n_test permutation;
                 ind_train = take n_train (drop n_test permutation)
             in Inr (map (nth X) ind_train, map (nth X) ind_test,
                     map (nth y) ind_train, map (nth y) ind_test)))"

section \<open>Classifier Model: \<^verbatim>\<open>SmilingClassifier\<close> (model_utils.py, face.py)\<close>

subsection \<open>Sequencing of fallible steps\<close>

text \<open>An exception raised by a step ends the computation; otherwise the next step runs.\<close>

definition then_do :: "error + 'a \<Rightarrow> ('a \<Rightarrow> error + 'b) \<Rightarrow> error + 'b" where
  "then_do r f = (case r of Inl e \<Rightarrow> Inl e | Inr v \<Rightarrow> f v)"

subsection \<open>Single-precision values\<close>

text \<open>
  A tensor entry is a 32-bit float: a finite value, an infinity or NaN. The sign of zero
  is not modelled. \<open>f32_round\<close> rounds a real number to the nearest float (24 significant
  bits, ties to even, gradual underflow below \<open>2 ^ -126\<close>) and overflows to an infinity.
\<close>

datatype f32 = Finite real | PosInf | NegInf | NaN

definition round_half_even :: "real \<Rightarrow> int" where
  "round_half_even q =
     (let f = \<lfloor>q\<rfloor>; d = q - of_int f
      in if d < 1 / 2 then f
         else if 1 / 2 < d then f + 1
         else if even f then f else f + 1)"

definition f32_round :: "real \<Rightarrow> f32" where
  "f32_round v =
     (if v = 0 then Finite 0
      else
        let e = max \<lfloor>log 2 \<bar>v\<bar>\<rfloor> (- 126);
            ulp = 2 powr (of_int e - 23);
            y = of_int (round_half_even (v / ulp)) * ulp
        in if 2 ^ 128 \<le> \<bar>y\<bar> then (if 0 < v then PosInf else NegInf) else Finite y)"

text \<open>
  Addition, multiplication and maximum with the special values of IEEE 754: NaN spreads
  through every operation, \<open>inf - inf\<close> and \<open>0 * inf\<close> are NaN. The maximum is the one of
  \<^verbatim>\<open>torch.relu\<close> and \<^verbatim>\<open>nn.MaxPool2d\<close>, which return NaN when an operand is NaN.
\<close>

fun fadd :: "f32 \<Rightarrow> f32 \<Rightarrow> f32" where
  "fadd (Finite a) (Finite b) = f32_round (a + b)"
| "fadd NaN _ = NaN"
| "fadd _ NaN = NaN"
| "fadd PosInf NegInf = NaN"
| "fadd NegInf PosInf = NaN"
| "fadd PosInf _ = PosInf"
| "fadd _ PosInf = PosInf"
| "fadd NegInf _ = NegInf"
| "fadd _ NegInf = NegInf"

fun is_zero :: "f32 \<Rightarrow> bool" where
  "is_zero (Finite a) = (a = 0)"
| "is_zero _ = False"

fun is_negative :: "f32 \<Rightarrow> bool" where
  "is_negative (Finite a) = (a < 0)"
| "is_negative NegInf = True"
| "is_negative _ = False"

fun fmul :: "f32 \<Rightarrow> f32 \<Rightarrow> f32" where
  "fmul (Finite a) (Finite b) = f32_round (a * b)"
| "fmul NaN _ = NaN"
| "fmul _ NaN = NaN"
| "fmul u v =
     (if is_zero u \<or> is_zero v then NaN
      else if is_negative u \<noteq> is_negative v then NegInf
      else PosInf)"

fun fmax :: "f32 \<Rightarrow> f32 \<Rightarrow> f32" where
  "fmax (Finite a) (Finite b) = Finite (max a b)"
| "fmax NaN _ = NaN"
| "fmax _ NaN = NaN"
| "fmax PosInf _ = PosInf"
| "fmax _ PosInf = PosInf"
| "fmax NegInf v = v"
| "fmax u NegInf = u"

text \<open>The logistic function: \<open>0\<close> and \<open>1\<close> at the infinities, NaN at NaN.\<close>

fun fsigmoid :: "f32 \<Rightarrow> f32" where
  "fsigmoid (Finite a) = f32_round (1 / (1 + exp (- a)))"
| "fsigmoid PosInf = Finite 1"
| "fsigmoid NegInf = Finite 0"
| "fsigmoid NaN = NaN"

subsection \<open>Tensors\<close>

text \<open>A tensor is its shape and its entries, read by a multi-index.\<close>

record tensor =
  shape :: "nat list"
  elem :: "nat list \<Rightarrow> f32"

definition numel :: "tensor \<Rightarrow> nat" where
  "numel x = prod_list (shape x)"

text \<open>The multi-index of the \<open>f\<close>-th entry in row-major (contiguous) order.\<close>

fun unravel :: "nat list \<Rightarrow> nat \<Rightarrow> nat list" where
  "unravel [] f = []"
| "unravel (d # ds) f = (f div prod_list ds) # unravel ds (f mod prod_list ds)"

definition IMG_WIDTH :: nat where
  "IMG_WIDTH = 180"

definition IMG_HEIGHT :: nat where
  "IMG_HEIGHT = 192"

subsection \<open>The layers of \<^verbatim>\<open>torch.nn\<close> that the classifier uses\<close>

text \<open>
  \<^verbatim>\<open>nn.Conv2d(in_channels, out_channels, kernel_size, stride, padding)\<close> on a batch
  \<open>(B, C, H, W)\<close>: zero padding, cross-correlation with the weights, added to the bias. The
  output height is \<open>(H + 2 * padding - kernel_size) div stride + 1\<close>, and likewise the
  width. A wrong number of channels or a kernel larger than the padded input raises. The
  order in which the library adds the products up is its own; the model adds them to the
  bias in index order.
\<close>

record conv2d =
  in_channels :: nat
  out_channels :: nat
  kernel_size :: nat
  stride :: nat
  padding :: nat
  weight :: "nat \<Rightarrow> nat \<Rightarrow> nat \<Rightarrow> nat \<Rightarrow> f32"
  bias :: "nat \<Rightarrow> f32"

definition padded :: "tensor \<Rightarrow> nat \<Rightarrow> nat \<Rightarrow> nat \<Rightarrow> nat \<Rightarrow> nat \<Rightarrow> f32" where
  "padded x p b c u v =
     (case shape x of
        [B, C, H, W] \<Rightarrow>
          if p \<le> u \<and> u < H + p \<and> p \<le> v \<and> v < W + p then elem x [b, c, u - p, v - p]
          else Finite 0
      | _ \<Rightarrow> Finite 0)"

definition conv2d_apply :: "conv2d \<Rightarrow> tensor \<Rightarrow> error + tensor" where
  "conv2d_apply l x =
     (case shape x of
        [B, C, H, W] \<Rightarrow>
          if C \<noteq> in_channels l \<or> stride l = 0
             \<or> H + 2 * padding l < kernel_size l \<or> W + 2 * padding l < kernel_size l
          then Inl RuntimeError
          else Inr \<lparr>shape = [B, out_channels l,
                              (H + 2 * padding l - kernel_size l) div stride l + 1,
                              (W + 2 * padding l - kernel_size l) div stride l + 1],
                    elem = (\<lambda>idx. case idx of
                       [b, oc, i, j] \<Rightarrow>
                         foldl fadd (bias l oc)
                           (concat (map (\<lambda>c. concat (map (\<lambda>di. map (\<lambda>dj.
                              fmul (weight l oc c di dj)
                                (padded x (padding l) b c (i * stride l + di) (j * stride l + dj)))
                              [0..<kernel_size l]) [0..<kernel_size l])) [0..<C]))
                     | _ \<Rightarrow> Finite 0)\<rparr>
      | _ \<Rightarrow> Inl RuntimeError)"

text \<open>
  \<^verbatim>\<open>nn.MaxPool2d(kernel_size, stride, padding=0)\<close>: the maximum over each window; the
  output height is \<open>(H - kernel_size) div stride + 1\<close>. An input smaller than the window
  raises.
\<close>

record maxpool2d =
  pool_kernel_size :: nat
  pool_stride :: nat

definition maximum :: "f32 list \<Rightarrow> f32" where
  "maximum vs = (case vs of [] \<Rightarrow> NegInf | v # rest \<Rightarrow> foldl fmax v rest)"

definition max_pool2d :: "maxpool2d \<Rightarrow> tensor \<Rightarrow> error + tensor" where
  "max_pool2d l x =
     (case shape x of
        [B, C, H, W] \<Rightarrow>
          if pool_kernel_size l = 0 \<or> pool_stride l = 0
             \<or> H < pool_kernel_size l \<or> W < pool_kernel_size l
          then Inl RuntimeError
          else Inr \<lparr>shape = [B, C, (H - pool_kernel_size l) div pool_stride l + 1,
                              (W - pool_kernel_size l) div pool_stride l + 1],
                    elem = (\<lambda>idx. case idx of
                       [b, c, i, j] \<Rightarrow>
                         maximum (concat (map (\<lambda>di. map (\<lambda>dj.
                            elem x [b, c, i * pool_stride l + di, j * pool_stride l + dj])
                            [0..<pool_kernel_size l]) [0..<pool_kernel_size l]))
                     | _ \<Rightarrow> Finite 0)\<rparr>
      | _ \<Rightarrow> Inl RuntimeError)"

text \<open>\<^verbatim>\<open>torch.relu\<close> and \<^verbatim>\<open>nn.Sigmoid\<close> work entry by entry and keep the shape.\<close>

definition relu :: "tensor \<Rightarrow> tensor" where
  "relu x = x\<lparr>elem := (\<lambda>idx. fmax (Finite 0) (elem x idx))\<rparr>"

definition sigmoid :: "tensor \<Rightarrow> tensor" where
  "sigmoid x = x\<lparr>elem := (\<lambda>idx. fsigmoid (elem x idx))\<rparr>"

text \<open>
  \<^verbatim>\<open>x.view(-1, n)\<close>: the entries in row-major order, regrouped in rows of \<open>n\<close>. The number
  of rows is inferred; it raises when \<open>n\<close> does not divide the number of entries.
\<close>

definition view_rows :: "nat \<Rightarrow> tensor \<Rightarrow> error + tensor" where
  "view_rows n x =
     (if n = 0 \<or> numel x mod n \<noteq> 0 then Inl RuntimeError
      else Inr \<lparr>shape = [numel x div n, n],
                elem = (\<lambda>idx. case idx of
                   [r, k] \<Rightarrow> elem x (unravel (shape x) (r * n + k))
                 | _ \<Rightarrow> Finite 0)\<rparr>)"

text \<open>
  \<^verbatim>\<open>nn.Linear(in_features, out_features)\<close>: an affine map on the last axis, which must
  have \<open>in_features\<close> entries.
\<close>

record linear =
  in_features :: nat
  out_features :: nat
  lin_weight :: "nat \<Rightarrow> nat \<Rightarrow> f32"
  lin_bias :: "nat \<Rightarrow> f32"

definition linear_apply :: "linear \<Rightarrow> tensor \<Rightarrow> error + tensor" where
  "linear_apply l x =
     (if shape x = [] \<or> last (shape x) \<noteq> in_features l then Inl RuntimeError
      else Inr \<lparr>shape = butlast (shape x) @ [out_features l],
                elem = (\<lambda>idx.
                   foldl fadd (lin_bias l (last idx))
                     (map (\<lambda>i. fmul (lin_weight l (last idx) i) (elem x (butlast idx @ [i])))
                        [0..<in_features l]))\<rparr>)"

subsection \<open>The network\<close>

text \<open>
  The trainable parameters of the classifier. \<^verbatim>\<open>__init__\<close> fixes every layer's sizes; the
  weights and biases are what training changes.
\<close>

record classifier_params =
  conv1_weight :: "nat \<Rightarrow> nat \<Rightarrow> nat \<Rightarrow> nat \<Rightarrow> f32"
  conv1_bias :: "nat \<Rightarrow> f32"
  conv2_weight :: "nat \<Rightarrow> nat \<Rightarrow> nat \<Rightarrow> nat \<Rightarrow> f32"
  conv2_bias :: "nat \<Rightarrow> f32"
  fc1_weight :: "nat \<Rightarrow> nat \<Rightarrow> f32"
  fc1_bias :: "nat \<Rightarrow> f32"
  fc2_weight :: "nat \<Rightarrow> nat \<Rightarrow> f32"
  fc2_bias :: "nat \<Rightarrow> f32"

definition conv1 :: "classifier_params \<Rightarrow> conv2d" where
  "conv1 p = \<lparr>in_channels = 3, out_channels = 32, kernel_size = 5, stride = 1, padding = 2,
               weight = conv1_weight p, bias = conv1_bias p\<rparr>"

definition pool :: maxpool2d where
  "pool = \<lparr>pool_kernel_size = 2, pool_stride = 2\<rparr>"

definition conv2 :: "classifier_params \<Rightarrow> conv2d" where
  "conv2 p = \<lparr>in_channels = 32, out_channels = 64, kernel_size = 5, stride = 1, padding = 2,
               weight = conv2_weight p, bias = conv2_bias p\<rparr>"

definition fc1 :: "classifier_params \<Rightarrow> linear" where
  "fc1 p = \<lparr>in_features = 64 * 45 * 48, out_features = 512,
             lin_weight = fc1_weight p, lin_bias = fc1_bias p\<rparr>"

definition fc2 :: "classifier_params \<Rightarrow> linear" where
  "fc2 p = \<lparr>in_features = 512, out_features = 1,
             lin_weight = fc2_weight p, lin_bias = fc2_bias p\<rparr>"

definition forward :: "classifier_params \<Rightarrow> tensor \<Rightarrow> error + tensor" where
  "forward p x =
     then_do (conv2d_apply (conv1 p) x) (\<lambda>x.
     then_do (max_pool2d pool (relu x)) (\<lambda>x.
     then_do (conv2d_apply (conv2 p) x) (\<lambda>x.
     then_do (max_pool2d pool (relu x)) (\<lambda>x.
     then_do (view_rows (64 * 45 * 48) x) (\<lambda>x.
     then_do (linear_apply (fc1 p) x) (\<lambda>x.
     then_do (linear_apply (fc2 p) (relu x)) (\<lambda>x.
     Inr (sigmoid x))))))))"

text \<open>
  The tensor that \<open>forward\<close> hands to the sigmoid: the same layers without the last step.
\<close>

definition pre_sigmoid :: "classifier_params \<Rightarrow> tensor \<Rightarrow> error + tensor" where
  "pre_sigmoid p x =
     then_do (conv2d_apply (conv1 p) x) (\<lambda>x.
     then_do (max_pool2d pool (relu x)) (\<lambda>x.
     then_do (conv2d_apply (conv2 p) x) (\<lambda>x.
     then_do (max_pool2d pool (relu x)) (\<lambda>x.
     then_do (view_rows (64 * 45 * 48) x) (\<lambda>x.
     then_do (linear_apply (fc1 p) x) (\<lambda>x.
     linear_apply (fc2 p) (relu x)))))))"

section \<open>Trainer and Evaluator: \<^verbatim>\<open>train_model\<close>, \<^verbatim>\<open>eval_model\<close> (model_utils.py)\<close>

subsection \<open>The world outside the training code\<close>

text \<open>
  What a run leaves behind, whether it returns or raises: the events the \<^verbatim>\<open>SummaryWriter\<close>
  has received, the files \<^verbatim>\<open>torch.save\<close> has written (path and saved parameters), and a
  record of every operation that can raise, in the order the run performed them, each with
  its outcome.
\<close>

datatype event =
    AddScalars string "(string \<times> real) list" nat
  | AddScalar string real nat
  | AddFigure string nat

datatype call =
    ModelTo | NextBatch | NewAdam | NewLinearLR | MakeDirs
  | Forward | Criterion | Compare | Backward | Divide
  | WriterAdd | Subplot | TorchSave

datatype outcome = Returned | Raised error

record 'p world =
  events :: "event list"
  saved :: "(string \<times> 'p) list"
  calls :: "(call \<times> outcome) list"

text \<open>
  A piece of the program takes the world and gives back the world as it has left it,
  together with its value or the exception it raised. \<open>returns\<close> is a plain value;
  \<open>attempt\<close> performs one operation that can raise and records its outcome; \<open>and_then\<close>
  runs the next statement unless an exception is on its way out.
\<close>

type_synonym ('p, 'a) run = "'p world \<Rightarrow> 'p world \<times> (error + 'a)"

definition returns :: "'a \<Rightarrow> ('p, 'a) run" where
  "returns v w = (w, Inr v)"

definition attempt :: "call \<Rightarrow> error + 'a \<Rightarrow> ('p, 'a) run" where
  "attempt c r w =
     (w\<lparr>calls := calls w @ [(c, case r of Inl e \<Rightarrow> Raised e | Inr v \<Rightarrow> Returned)]\<rparr>, r)"

definition and_then :: "('p, 'a) run \<Rightarrow> ('a \<Rightarrow> ('p, 'b) run) \<Rightarrow> ('p, 'b) run" where
  "and_then m f w =
     (case m w of
        (w', Inl e) \<Rightarrow> (w', Inl e)
      | (w', Inr v) \<Rightarrow> f v w')"

text \<open>
  The file system and the metrics sink decide whether a call to them raises; the
  decision may depend on everything that happened before. \<open>None\<close> is a call that returns.
\<close>

record 'p env =
  makedirs :: "'p world \<Rightarrow> string \<Rightarrow> error option"
  torch_save :: "'p world \<Rightarrow> string \<Rightarrow> 'p \<Rightarrow> error option"
  writer_add :: "'p world \<Rightarrow> event \<Rightarrow> error option"

text \<open>\<^verbatim>\<open>writer.add_scalars\<close>, \<^verbatim>\<open>writer.add_scalar\<close> and \<^verbatim>\<open>writer.add_figure\<close>.\<close>

definition emit :: "'p env \<Rightarrow> event \<Rightarrow> ('p, unit) run" where
  "emit E ev w =
     (case writer_add E w ev of
        Some e \<Rightarrow> attempt WriterAdd (Inl e) w
      | None \<Rightarrow> attempt WriterAdd (Inr ()) (w\<lparr>events := events w @ [ev]\<rparr>))"

text \<open>\<^verbatim>\<open>torch.save(state, path)\<close>.\<close>

definition save_file :: "'p env \<Rightarrow> string \<Rightarrow> 'p \<Rightarrow> ('p, unit) run" where
  "save_file E path state w =
     (case torch_save E w path state of
        Some e \<Rightarrow> attempt TorchSave (Inl e) w
      | None \<Rightarrow> attempt TorchSave (Inr ()) (w\<lparr>saved := saved w @ [(path, state)]\<rparr>))"

text \<open>
  \<^verbatim>\<open>try: os.makedirs(save_dir)\<close> \<^verbatim>\<open>except FileExistsError: pass\<close>: the one handler of the
  program.
\<close>

definition make_dirs :: "'p env \<Rightarrow> string \<Rightarrow> ('p, unit) run" where
  "make_dirs E path w =
     (case makedirs E w path of
        None \<Rightarrow> attempt MakeDirs (Inr ()) w
      | Some e \<Rightarrow>
          (case attempt MakeDirs (Inl e) w of
             (w', r) \<Rightarrow> if e = FileExistsError then (w', Inr ()) else (w', r)))"

subsection \<open>Batches, the model object and the loss\<close>

text \<open>
  A batch of a \<^verbatim>\<open>DataLoader\<close> is an input tensor and the targets of its samples; the
  loader is the list of its batches, so \<^verbatim>\<open>len(dataloader)\<close> is the number of batches, and
  every pass over it meets the same batches in the same order, as with a loader built
  without shuffling. Losses, outputs and rates are real numbers.
\<close>

record 'x batch =
  inputs :: 'x
  targets :: "real list"

text \<open>
  The model object and the optimizer are arguments of the training code. A model object
  of type \<open>'m\<close> holds everything the object holds: parameters, buffers, the mode flag. A
  forward pass \<open>call_model\<close> gives one output per sample and the model object as the call
  left it, or raises. \<open>set_train\<close> and \<open>set_eval\<close> are \<^verbatim>\<open>model.train()\<close> and \<^verbatim>\<open>model.eval()\<close>,
  \<open>state_dict\<close> the parameters that \<^verbatim>\<open>model.state_dict()\<close> reads, \<open>to_dev\<close> is
  \<^verbatim>\<open>model.to(dev)\<close>, \<open>new_adam\<close> the construction of \<^verbatim>\<open>optim.Adam\<close>, \<open>backward_step\<close> one
  \<^verbatim>\<open>zero_grad(); loss.backward(); optimizer.step()\<close> at the given learning rate, and
  \<open>first_rows\<close> the slice \<^verbatim>\<open>images[:RANGE]\<close>.
\<close>

record ('m, 'p, 'o, 'x) learner =
  to_dev :: "'m \<Rightarrow> error + 'm"
  call_model :: "'m \<Rightarrow> 'x \<Rightarrow> error + (real list \<times> 'm)"
  set_train :: "'m \<Rightarrow> 'm"
  set_eval :: "'m \<Rightarrow> 'm"
  state_dict :: "'m \<Rightarrow> 'p"
  new_adam :: "'m \<Rightarrow> error + 'o"
  backward_step :: "real \<Rightarrow> 'o \<Rightarrow> 'm \<Rightarrow> 'x batch \<Rightarrow> error + ('o \<times> 'm)"
  first_rows :: "nat \<Rightarrow> 'x \<Rightarrow> 'x"

text \<open>
  \<^verbatim>\<open>(outputs > 0.5).float()\<close>: the prediction for an output.
\<close>

definition predicted :: "real \<Rightarrow> real" where
  "predicted out = (if 1 / 2 < out then 1 else 0)"

text \<open>
  \<^verbatim>\<open>(predicted == targets).sum().item()\<close>: the number of samples whose prediction equals
  the target. Both tensors have one column; when their numbers of rows differ, a single row
  is compared with every row of the other, and any other mismatch raises.
\<close>

definition count_correct :: "real list \<Rightarrow> real list \<Rightarrow> error + nat" where
  "count_correct outputs tgts =
     (if length outputs = length tgts
      then Inr (length (filter (\<lambda>(out, tgt). predicted out = tgt) (zip outputs tgts)))
      else if length outputs = 1
      then Inr (length (filter (\<lambda>tgt. predicted (hd outputs) = tgt) tgts))
      else if length tgts = 1
      then Inr (length (filter (\<lambda>out. predicted out = hd tgts) outputs))
      else Inl RuntimeError)"

text \<open>
  \<^verbatim>\<open>nn.BCELoss()\<close>: the mean over the batch of the binary cross-entropy, each logarithm
  clamped below at \<open>-100\<close> (so the logarithm of \<open>0\<close> counts as \<open>-100\<close>). It raises when the
  two sizes differ or an output lies outside \<open>[0, 1]\<close>. The mean over an empty batch is NaN
  in the library and is not modelled; a \<^verbatim>\<open>DataLoader\<close> yields no empty batch.
\<close>

definition clamped_log :: "real \<Rightarrow> real" where
  "clamped_log v = (if v \<le> 0 then - 100 else max (ln v) (- 100))"

definition BCELoss :: "real list \<Rightarrow> real list \<Rightarrow> error + real" where
  "BCELoss outputs tgts =
     (if length outputs \<noteq> length tgts then Inl ValueError
      else if list_ex (\<lambda>out. out < 0 \<or> 1 < out) outputs then Inl RuntimeError
      else Inr ((\<Sum>(out, tgt) \<leftarrow> zip outputs tgts.
                   - (tgt * clamped_log out + (1 - tgt) * clamped_log (1 - out)))
                / real (length outputs)))"

text \<open>A Python division, which raises on a zero divisor.\<close>

definition divide :: "real \<Rightarrow> nat \<Rightarrow> ('p, real) run" where
  "divide a n = attempt Divide (if n = 0 then Inl ZeroDivisionError else Inr (a / real n))"

subsection \<open>The Evaluator\<close>

text \<open>
  The loop of \<open>eval_model\<close> over the batches, with the model object and the accumulators
  \<open>correct\<close>, \<open>total\<close> (here \<open>total_n\<close>) and \<open>val_loss\<close>.
\<close>

fun eval_loop ::
  "('m, 'p, 'o, 'x) learner \<Rightarrow> (real list \<Rightarrow> real list \<Rightarrow> error + real) \<Rightarrow> 'x batch list
     \<Rightarrow> 'm \<times> nat \<times> nat \<times> real \<Rightarrow> ('p, 'm \<times> nat \<times> nat \<times> real) run" where
  "eval_loop L criterion [] acc = returns acc"
| "eval_loop L criterion (data # rest) (m, correct, total_n, val_loss) =
     and_then (attempt Forward (call_model L m (inputs data))) (\<lambda>(outputs, m').
     and_then (attempt Criterion (criterion outputs (targets data))) (\<lambda>loss.
     and_then (attempt Compare (count_correct outputs (targets data))) (\<lambda>n.
     eval_loop L criterion rest
       (m', correct + n, total_n + length (targets data), val_loss + loss))))"

text \<open>
  \<open>eval_model\<close> switches the model to evaluation mode, runs the loop and divides. The
  model object is part of the result, since the call changes it.
\<close>

definition eval_model ::
  "('m, 'p, 'o, 'x) learner \<Rightarrow> 'm \<Rightarrow> 'x batch list
     \<Rightarrow> (real list \<Rightarrow> real list \<Rightarrow> error + real) \<Rightarrow> ('p, 'm \<times> real \<times> real) run" where
  "eval_model L mdl test_dataloader criterion =
     and_then (eval_loop L criterion test_dataloader (set_eval L mdl, 0, 0, 0))
       (\<lambda>(mdl, correct, total_n, val_loss).
     and_then (divide val_loss (length test_dataloader)) (\<lambda>average_val_loss.
     and_then (divide (100 * real correct) total_n) (\<lambda>accuracy.
     returns (mdl, average_val_loss, accuracy))))"

subsection \<open>The figure of \<^verbatim>\<open>plot_classes_preds\<close> (logger_utils.py)\<close>

text \<open>
  \<open>plot_classes_preds\<close> runs the model on the first \<open>RANGE = min(12, len(labels))\<close> images
  and lays the pictures out on a grid of \<open>ROWS = 3\<close> rows and \<open>RANGE // ROWS\<close> columns.
  \<^verbatim>\<open>add_subplot\<close> raises \<^verbatim>\<open>ValueError\<close> for a grid with no column and for a position beyond
  the grid. The figure itself is not modelled, only whether building it succeeds.
\<close>

fun add_subplots :: "nat \<Rightarrow> nat \<Rightarrow> nat list \<Rightarrow> ('p, unit) run" where
  "add_subplots nrows ncols [] = returns ()"
| "add_subplots nrows ncols (idx # rest) =
     and_then (attempt Subplot
                 (if ncols = 0 \<or> nrows * ncols < idx + 1 then Inl ValueError else Inr ()))
       (\<lambda>_. add_subplots nrows ncols rest)"

definition plot_classes_preds ::
  "('m, 'p, 'o, 'x) learner \<Rightarrow> 'm \<Rightarrow> 'x batch \<Rightarrow> ('p, 'm) run" where
  "plot_classes_preds L m sample =
     (let RANGE = min 12 (length (targets sample)); ROWS = 3 in
      and_then (attempt Forward (call_model L m (first_rows L RANGE (inputs sample))))
        (\<lambda>(probs, m').
      and_then (add_subplots ROWS (RANGE div ROWS) [0..<RANGE]) (\<lambda>_.
      returns m')))"

subsection \<open>The learning-rate scheduler\<close>

text \<open>
  \<^verbatim>\<open>int(epochs * 0.7)\<close> is computed in double precision: \<open>epochs\<close> is converted to a double,
  multiplied by the double nearest to \<open>0.7\<close>, which is \<open>6305039478318694 / 2 ^ 53\<close>, the
  product is rounded to 53 significant bits (ties to even), and \<open>int\<close> truncates. The
  rounding is modelled exactly on the integer numerators.
\<close>

fun bitlen :: "nat \<Rightarrow> nat" where
  "bitlen n = (if n = 0 then 0 else Suc (bitlen (n div 2)))"

declare bitlen.simps [simp del]

definition round_to_double :: "nat \<Rightarrow> nat" where
  "round_to_double m =
     (if bitlen m \<le> 53 then m
      else
        let s = bitlen m - 53; q = m div 2 ^ s; r = m mod 2 ^ s
        in (if 2 ^ s < 2 * r \<or> (2 * r = 2 ^ s \<and> odd q) then q + 1 else q) * 2 ^ s)"

definition int_epochs_times_0_7 :: "nat \<Rightarrow> nat" where
  "int_epochs_times_0_7 epochs =
     round_to_double (round_to_double epochs * 6305039478318694) div 2 ^ 53"

text \<open>
  \<^verbatim>\<open>optim.lr_scheduler.LinearLR(optimizer, start_factor, end_factor, total_iters)\<close>,
  modelled from the library: the constructor checks the two factors and sets the rate to
  \<open>lr * start_factor\<close>; every \<^verbatim>\<open>scheduler.step()\<close> counts one epoch and, up to \<open>total_iters\<close>
  steps, multiplies the rate by the library's chained factor; after that the rate stays.
\<close>

record linear_lr =
  start_factor :: real
  end_factor :: real
  total_iters :: nat
  last_epoch :: nat

definition LinearLR :: "real \<Rightarrow> real \<Rightarrow> real \<Rightarrow> nat \<Rightarrow> error + (linear_lr \<times> real)" where
  "LinearLR group_lr sf ef ti =
     (if sf > 1 \<or> sf \<le> 0 then Inl ValueError
      else if ef > 1 \<or> ef < 0 then Inl ValueError
      else Inr (\<lparr>start_factor = sf, end_factor = ef, total_iters = ti, last_epoch = 0\<rparr>,
                group_lr * sf))"

definition get_lr :: "linear_lr \<Rightarrow> real \<Rightarrow> real" where
  "get_lr s group_lr =
     (if last_epoch s = 0 then group_lr * start_factor s
      else if last_epoch s > total_iters s then group_lr
      else group_lr *
        (1 + (end_factor s - start_factor s) /
             (real (total_iters s) * start_factor s +
              real (last_epoch s - 1) * (end_factor s - start_factor s))))"

definition scheduler_step :: "linear_lr \<Rightarrow> real \<Rightarrow> linear_lr \<times> real" where
  "scheduler_step s group_lr =
     (let s' = s\<lparr>last_epoch := last_epoch s + 1\<rparr> in (s', get_lr s' group_lr))"

subsection \<open>Checkpoint file names\<close>

text \<open>\<^verbatim>\<open>f"{epoch}.pt"\<close> prints the epoch index in decimal.\<close>

definition digit_char :: "nat \<Rightarrow> char" where
  "digit_char d = ''0123456789'' ! d"

fun str_nat :: "nat \<Rightarrow> string" where
  "str_nat n =
     (if n < 10 then [digit_char n]
      else str_nat (n div 10) @ [digit_char (n mod 10)])"

declare str_nat.simps [simp del]

text \<open>\<^verbatim>\<open>os.path.join(a, b)\<close> on a POSIX system, for two components.\<close>

definition path_join :: "string \<Rightarrow> string \<Rightarrow> string" where
  "path_join a b =
     (if b \<noteq> [] \<and> hd b = CHR ''/'' then b
      else if a = [] \<or> last a = CHR ''/'' then a @ b
      else a @ ''/'' @ b)"

subsection \<open>The Trainer\<close>

text \<open>The arguments of \<open>train_model\<close> that stay fixed during the run.\<close>

record 'x train_args =
  train_dataloader :: "'x batch list"
  test_dataloader :: "'x batch list"
  epochs :: nat
  save_dir :: string
  nosave :: bool

text \<open>
  What the run holds in its variables: the model object, the optimizer's state and
  learning rate, the scheduler, and the postfix shown on the progress bar after each epoch.
\<close>

record ('m, 'o) train_state =
  model :: 'm
  opt_state :: 'o
  lr :: real
  scheduler :: linear_lr
  postfix :: "(nat \<times> real \<times> real) list"

text \<open>
  The inner loop \<^verbatim>\<open>for data in train_dataloader\<close>: forward pass, loss, optimizer step,
  and the two running sums.
\<close>

fun train_batches ::
  "('m, 'p, 'o, 'x) learner \<Rightarrow> real \<Rightarrow> 'x batch list \<Rightarrow> 'o \<times> 'm \<times> real \<times> real
     \<Rightarrow> ('p, 'o \<times> 'm \<times> real \<times> real) run" where
  "train_batches L rate [] acc = returns acc"
| "train_batches L rate (data # rest) (opt, m, running_loss, correct) =
     and_then (attempt Forward (call_model L m (inputs data))) (\<lambda>(outputs, m1).
     and_then (attempt Criterion (BCELoss outputs (targets data))) (\<lambda>loss.
     and_then (attempt Backward (backward_step L rate opt m1 data)) (\<lambda>(opt', m2).
     and_then (attempt Compare (count_correct outputs (targets data))) (\<lambda>n.
     train_batches L rate rest (opt', m2, running_loss + loss, correct + real n)))))"

text \<open>One pass of the body of \<^verbatim>\<open>for epoch in range(epochs)\<close>.\<close>

definition train_epoch ::
  "('m, 'p, 'o, 'x) learner \<Rightarrow> 'p env \<Rightarrow> 'x train_args \<Rightarrow> 'x batch \<Rightarrow> nat
     \<Rightarrow> ('m, 'o) train_state \<Rightarrow> ('p, ('m, 'o) train_state) run" where
  "train_epoch L E args sample epoch st =
     and_then (train_batches L (lr st) (train_dataloader args)
                 (opt_state st, set_train L (model st), 0, 0))
       (\<lambda>(opt, m, running_loss, correct).
     and_then (divide running_loss (length (train_dataloader args))) (\<lambda>average_loss.
     and_then (eval_model L m (test_dataloader args) BCELoss)
       (\<lambda>(m, eval_loss, eval_accuracy).
     and_then (emit E (AddScalars ''loss''
                 [(''Train'', average_loss), (''Eval'', eval_loss)] (epoch + 1))) (\<lambda>_.
     and_then (divide correct (length (train_dataloader args))) (\<lambda>train_accuracy.
     and_then (emit E (AddScalar ''accuracy/Train'' train_accuracy (epoch + 1))) (\<lambda>_.
     and_then (emit E (AddScalar ''accuracy/Eval'' eval_accuracy (epoch + 1))) (\<lambda>_.
     and_then (plot_classes_preds L m sample) (\<lambda>m.
     and_then (emit E (AddFigure ''predictions vs. actuals'' (epoch + 1))) (\<lambda>_.
     and_then (if \<not> nosave args \<and> epoch mod 3 = 2
               then save_file E (path_join (save_dir args) (str_nat epoch @ ''.pt''))
                      (state_dict L m)
               else returns ()) (\<lambda>_.
     (case scheduler_step (scheduler st) (lr st) of
        (sched, rate) \<Rightarrow>
          returns \<lparr>model = m, opt_state = opt, lr = rate, scheduler = sched,
                   postfix = postfix st @ [(epoch, average_loss, rate)]\<rparr>)))))))))))"

fun train_loop ::
  "('m, 'p, 'o, 'x) learner \<Rightarrow> 'p env \<Rightarrow> 'x train_args \<Rightarrow> 'x batch \<Rightarrow> nat list
     \<Rightarrow> ('m, 'o) train_state \<Rightarrow> ('p, ('m, 'o) train_state) run" where
  "train_loop L E args sample [] st = returns st"
| "train_loop L E args sample (epoch # rest) st =
     and_then (train_epoch L E args sample epoch st) (train_loop L E args sample rest)"

text \<open>
  Everything \<open>train_model\<close> does before the epoch loop: \<^verbatim>\<open>model.to(dev)\<close>; the sample batch
  \<^verbatim>\<open>next(iter(test_dataloader))\<close>, which raises \<^verbatim>\<open>StopIteration\<close> on an empty loader; the
  optimizer at \<open>lr = 1e-5\<close>; the scheduler; and the creation of the checkpoint directory.
\<close>

definition train_setup ::
  "('m, 'p, 'o, 'x) learner \<Rightarrow> 'p env \<Rightarrow> 'm \<Rightarrow> 'x train_args
     \<Rightarrow> ('p, 'x batch \<times> ('m, 'o) train_state) run" where
  "train_setup L E mdl args =
     and_then (attempt ModelTo (to_dev L mdl)) (\<lambda>mdl.
     and_then (attempt NextBatch
                 (case test_dataloader args of
                    [] \<Rightarrow> Inl StopIteration
                  | sample # _ \<Rightarrow> Inr sample)) (\<lambda>sample.
     and_then (attempt NewAdam (new_adam L mdl)) (\<lambda>opt.
     and_then (attempt NewLinearLR
                 (LinearLR (1 / 100000) 1 (1 / 10) (int_epochs_times_0_7 (epochs args))))
       (\<lambda>(sched, rate).
     and_then (make_dirs E (save_dir args)) (\<lambda>_.
     returns (sample,
              \<lparr>model = mdl, opt_state = opt, lr = rate, scheduler = sched,
               postfix = []\<rparr>))))))"

definition train_model ::
  "('m, 'p, 'o, 'x) learner \<Rightarrow> 'p env \<Rightarrow> 'm \<Rightarrow> 'x train_args
     \<Rightarrow> ('p, ('m, 'o) train_state) run" where
  "train_model L E mdl args =
     and_then (train_setup L E mdl args)
       (\<lambda>(sample, st). train_loop L E args sample [0..<epochs args] st)"

subsection \<open>Models without state\<close>

text \<open>
  A model object that holds parameters and the mode flag and nothing else, with a forward
  pass that is a function of the parameters and the input and leaves the object as it is:
  a network of convolutions, pooling, linear layers and activations, such as the
  classifier of this repository, which has neither dropout nor batch normalisation. The
  optimizer step is an argument.
\<close>

record 'p module =
  params :: 'p
  training :: bool

definition pure_learner ::
  "('p \<Rightarrow> 'x \<Rightarrow> real list) \<Rightarrow> (real \<Rightarrow> 'p \<Rightarrow> 'x batch \<Rightarrow> 'p) \<Rightarrow> (nat \<Rightarrow> 'x \<Rightarrow> 'x)
     \<Rightarrow> ('p module, 'p, unit, 'x) learner" where
  "pure_learner f step rows =
     \<lparr>to_dev = Inr,
      call_model = (\<lambda>m x. Inr (f (params m) x, m)),
      set_train = (\<lambda>m. m\<lparr>training := True\<rparr>),
      set_eval = (\<lambda>m. m\<lparr>training := False\<rparr>),
      state_dict = params,
      new_adam = (\<lambda>m. Inr ()),
      backward_step = (\<lambda>rate opt m data. Inr (opt, m\<lparr>params := step rate (params m) data\<rparr>)),
      first_rows = rows\<rparr>"

subsection \<open>What the model predicts during a pass over the batches\<close>

text \<open>
  The outputs and targets of every batch of one evaluation pass, in the order in which the
  loop meets them: each batch is predicted by the model object as the calls on the batches
  before it left it. The pass has no such list when a forward pass raises.
\<close>

fun eval_outputs ::
  "('m, 'p, 'o, 'x) learner \<Rightarrow> 'm \<Rightarrow> 'x batch list \<Rightarrow> error + (real list \<times> real list) list" where
  "eval_outputs L m [] = Inr []"
| "eval_outputs L m (data # rest) =
     (case call_model L m (inputs data) of
        Inl e \<Rightarrow> Inl e
      | Inr (outputs, m') \<Rightarrow>
          (case eval_outputs L m' rest of
             Inl e \<Rightarrow> Inl e
           | Inr ots \<Rightarrow> Inr ((outputs, targets data) # ots)))"

text \<open>The same for one training epoch, where the optimizer steps in between.\<close>

fun epoch_outputs ::
  "('m, 'p, 'o, 'x) learner \<Rightarrow> real \<Rightarrow> 'x batch list \<Rightarrow> 'o \<Rightarrow> 'm
     \<Rightarrow> error + (real list \<times> real list) list" where
  "epoch_outputs L rate [] opt m = Inr []"
| "epoch_outputs L rate (data # rest) opt m =
     (case call_model L m (inputs data) of
        Inl e \<Rightarrow> Inl e
      | Inr (outputs, m1) \<Rightarrow>
          (case backward_step L rate opt m1 data of
             Inl e \<Rightarrow> Inl e
           | Inr (opt', m2) \<Rightarrow>
               (case epoch_outputs L rate rest opt' m2 of
                  Inl e \<Rightarrow> Inl e
                | Inr ots \<Rightarrow> Inr ((outputs, targets data) # ots))))"

text \<open>
  The number of samples of a batch whose output, thresholded at \<open>0.5\<close>, equals the target.
\<close>

definition correct_predictions :: "real list \<times> real list \<Rightarrow> nat" where
  "correct_predictions ot =
     card {i. i < length (snd ot) \<and>
              (if 1 / 2 < fst ot ! i then 1 else 0) = snd ot ! i}"

text \<open>The learning rate of the schedule after \<open>k\<close> epochs, as a multiple of the base rate.\<close>

definition linear_factor :: "nat \<Rightarrow> nat \<Rightarrow> real" where
  "linear_factor T k = 1 - 9 / 10 * real (min k T) / real T"

subsection \<open>Runs without recovery\<close>

text \<open>
  A record of operations is \<open>clean\<close> when every operation in it returned, but for
  \<^verbatim>\<open>os.makedirs\<close> raising \<^verbatim>\<open>FileExistsError\<close>. A piece of the program is \<open>unforgiving\<close> when,
  from every world, what it adds to the record is clean if it returns, and is a clean record
  followed by one raising operation, whose exception is the one on its way out, if it
  raises: no exception is swallowed and nothing runs after an exception, so nothing is
  retried.
\<close>

definition clean :: "(call \<times> outcome) list \<Rightarrow> bool" where
  "clean entries \<longleftrightarrow>
     list_all (\<lambda>(c, out). out = Returned \<or> (c = MakeDirs \<and> out = Raised FileExistsError))
       entries"

definition unforgiving :: "('p, 'a) run \<Rightarrow> bool" where
  "unforgiving m \<longleftrightarrow>
     (\<forall>w. case m w of
        (w', Inr v) \<Rightarrow> (\<exists>new. calls w' = calls w @ new \<and> clean new)
      | (w', Inl e) \<Rightarrow>
          (\<exists>pre c. calls w' = calls w @ pre @ [(c, Raised e)] \<and> clean pre \<and>
                   \<not> (c = MakeDirs \<and> e = FileExistsError)))"

text \<open>
  A piece of the program is \<open>quiet\<close> when it sends nothing to the metrics sink and writes
  no file, and \<open>oblivious\<close> when its value or exception does not depend on the world it
  starts from.
\<close>

definition quiet :: "('p, 'a) run \<Rightarrow> bool" where
  "quiet m \<longleftrightarrow> (\<forall>w. events (fst (m w)) = events w \<and> saved (fst (m w)) = saved w)"

definition oblivious :: "('p, 'a) run \<Rightarrow> bool" where
  "oblivious m \<longleftrightarrow> (\<forall>w w'. snd (m w) = snd (m w'))"

text \<open>
  A piece of the program \<open>emits_only\<close> the events of a set when every event it sends to
  the metrics sink, whether it returns or raises, belongs to the set.
\<close>

definition emits_only :: "event set \<Rightarrow> ('p, 'a) run \<Rightarrow> bool" where
  "emits_only S m \<longleftrightarrow> (\<forall>w. \<exists>new. events (fst (m w)) = events w @ new \<and> set new \<subseteq> S)"

section \<open>Example inputs\<close>

text \<open>Concrete inputs on which the properties below are instantiated.\<close>

definition zero_params :: classifier_params where
  "zero_params = \<lparr>conv1_weight = (\<lambda>_ _ _ _. Finite 0), conv1_bias = (\<lambda>_. Finite 0),
     conv2_weight = (\<lambda>_ _ _ _. Finite 0), conv2_bias = (\<lambda>_. Finite 0),
     fc1_weight = (\<lambda>_ _. Finite 0), fc1_bias = (\<lambda>_. Finite 0),
     fc2_weight = (\<lambda>_ _. Finite 0), fc2_bias = (\<lambda>_. Finite 0)\<rparr>"

definition zero_batch :: tensor where
  "zero_batch = \<lparr>shape = [2, 3, 192, 180], elem = (\<lambda>_. Finite 0)\<rparr>"

text \<open>One image, black but for a NaN in the first pixel of the first channel.\<close>

definition nan_batch :: tensor where
  "nan_batch = \<lparr>shape = [1, 3, 192, 180],
                 elem = (\<lambda>idx. if idx = [0, 0, 0, 0] then NaN else Finite 0)\<rparr>"

text \<open>
  A model whose forward pass returns its input batch as the outputs, an optimizer that
  leaves the parameters as they are, an empty world, and a file system and a metrics sink
  that accept everything.
\<close>

definition id_learner :: "(unit module, unit, unit, real list) learner" where
  "id_learner = pure_learner (\<lambda>p x. x) (\<lambda>rate p data. p) take"

definition model0 :: "unit module" where
  "model0 = \<lparr>params = (), training = True\<rparr>"

definition world0 :: "unit world" where
  "world0 = \<lparr>events = [], saved = [], calls = []\<rparr>"

definition env_ok :: "unit env" where
  "env_ok = \<lparr>makedirs = (\<lambda>w path. None), torch_save = (\<lambda>w path state. None),
             writer_add = (\<lambda>w ev. None)\<rparr>"

text \<open>The checkpoint directory is there already; it cannot be created at all.\<close>

definition env_dir_exists :: "unit env" where
  "env_dir_exists = env_ok\<lparr>makedirs := (\<lambda>w path. Some FileExistsError)\<rparr>"

definition env_dir_denied :: "unit env" where
  "env_dir_denied = env_ok\<lparr>makedirs := (\<lambda>w path. Some PermissionError)\<rparr>"

text \<open>The figure cannot be sent to the metrics sink.\<close>

definition env_no_figure :: "unit env" where
  "env_no_figure =
     env_ok\<lparr>writer_add := (\<lambda>w ev. case ev of AddFigure tag step \<Rightarrow> Some PermissionError
                                     | _ \<Rightarrow> None)\<rparr>"

text \<open>
  Five samples of which all but the second are predicted right: the outputs \<open>0.75\<close> and
  \<open>1\<close> are above the threshold, \<open>0.5\<close>, \<open>0.25\<close> and \<open>0\<close> are not. Three samples for the sample
  figure.
\<close>

definition batch5 :: "real list batch" where
  "batch5 = \<lparr>inputs = [3 / 4, 1 / 2, 1 / 4, 0, 1], targets = [1, 1, 0, 0, 1]\<rparr>"

definition batch3 :: "real list batch" where
  "batch3 = \<lparr>inputs = [1, 0, 1], targets = [1, 0, 0]\<rparr>"

definition args1 :: "real list train_args" where
  "args1 = \<lparr>train_dataloader = [batch5], test_dataloader = [batch3], epochs = 1,
            save_dir = ''ckpt'', nosave = False\<rparr>"

definition args3 :: "real list train_args" where
  "args3 = \<lparr>train_dataloader = [batch5], test_dataloader = [batch3], epochs = 3,
            save_dir = ''ckpt'', nosave = False\<rparr>"

text \<open>
  A model object that counts its forward passes and answers every second one with the
  complement of its input.
\<close>

definition counting_learner :: "(nat, unit, unit, real list) learner" where
  "counting_learner =
     \<lparr>to_dev = Inr,
      call_model = (\<lambda>m x. Inr (if even m then x else map (\<lambda>v. 1 - v) x, Suc m)),
      set_train = (\<lambda>m. m),
      set_eval = (\<lambda>m. m),
      state_dict = (\<lambda>m. ()),
      new_adam = (\<lambda>m. Inr ()),
      backward_step = (\<lambda>rate opt m data. Inr (opt, m)),
      first_rows = take\<rparr>"

section \<open>Properties of the Image Loader\<close>

lemma py_int_empty: "py_int [] = None"
  by (simp add: py_int_def strip_def)

lemma first_field_empty: "first_field [] = []"
  by (simp add: first_field_def)

lemma file_lines_Nil: "file_lines [] = []"
  by (simp add: file_lines.simps)

lemma file_lines_step:
  "s \<noteq> [] \<Longrightarrow> file_lines s = fst (readline s) # file_lines (snd (readline s))"
  by (subst file_lines.simps) simp

lemma load_loop_exhausted:
  "length (file_lines label_file) < length listing \<Longrightarrow>
     \<exists>e. load_loop tf listing label_file images labels = Inl e"
proof (induction listing arbitrary: label_file images labels)
  case Nil
  then show ?case by simp
next
  case (Cons entry rest)
  show ?case
  proof (cases entry)
    case None
    then show ?thesis by simp
  next
    case (Some img)
    show ?thesis
    proof (cases "label_file = []")
      case True
      then show ?thesis
        using Some by (simp add: first_field_empty py_int_empty)
    next
      case False
      obtain line label_file' where rl: "readline label_file = (line, label_file')"
        by (cases "readline label_file")
      from False rl have "file_lines label_file = line # file_lines label_file'"
        by (simp add: file_lines_step)
      with Cons.prems have "length (file_lines label_file') < length rest" by simp
      from Cons.IH [OF this] show ?thesis
        using Some rl by (auto split: option.splits)
    qed
  qed
qed

text \<open>
  Claim C1. A data directory whose labels file has fewer lines than the image directory
  listing has entries makes \<open>load_data\<close> raise: it never returns a result.
\<close>

theorem load_data_label_exhaustion_raises:
  assumes "labels_txt data_dir = Some label_file"
    and "files data_dir = Some listing"
    and "length (file_lines label_file) < length listing"
  shows "\<exists>e. load_data tf data_dir = Inl e"
  using assms load_loop_exhausted [of label_file listing tf "[]" "[]"]
  by (simp add: load_data_def)

theorem load_data_label_exhaustion_raises_witness:
  "length (file_lines ''1 x\<newline>'') < length [Some (5::nat), Some 7] \<and>
   (\<exists>e. load_data (\<lambda>r. r)
      \<lparr>labels_txt = Some ''1 x\<newline>'', files = Some [Some (5::nat), Some 7]\<rparr> = Inl e)"
proof -
  have lines: "length (file_lines ''1 x\<newline>'') < length [Some (5::nat), Some 7]"
    by (simp add: file_lines.simps)
  show ?thesis
    using lines
      load_data_label_exhaustion_raises
        [of "\<lparr>labels_txt = Some ''1 x\<newline>'', files = Some [Some (5::nat), Some 7]\<rparr>"
            "''1 x\<newline>''" "[Some 5, Some 7]" "\<lambda>r. r", OF _ _ lines]
    by simp
qed

lemma load_loop_Inr:
  "load_loop tf listing lf images labels = Inr (images', labels') \<Longrightarrow>
     length listing \<le> length (file_lines lf) \<and>
     map Some images' = map Some images @ map (map_option tf) listing \<and>
     map Some labels' = map Some labels @
        map (\<lambda>l. py_int (first_field l)) (take (length listing) (file_lines lf))"
proof (induction listing arbitrary: lf images labels)
  case Nil
  then show ?case by simp
next
  case (Cons entry rest)
  from Cons.prems obtain img where entry: "entry = Some img"
    by (cases entry) auto
  obtain line lf' where rl: "readline lf = (line, lf')"
    by (cases "readline lf")
  from Cons.prems entry rl obtain n where n: "py_int (first_field line) = Some n"
    by (cases "py_int (first_field line)") auto
  have "lf \<noteq> []"
  proof
    assume "lf = []"
    with rl have "line = []" by simp
    with n show False by (simp add: first_field_empty py_int_empty)
  qed
  with rl have fl: "file_lines lf = line # file_lines lf'"
    by (simp add: file_lines_step)
  from Cons.prems entry rl n
  have "load_loop tf rest lf' (images @ [tf img]) (labels @ [n]) = Inr (images', labels')"
    by simp
  from Cons.IH [OF this] show ?case
    using entry fl n by simp
qed

text \<open>
  Claim C2. When \<open>load_data\<close> returns, the image list and the label list both have the
  length of the directory listing, the labels file has at least that many lines, and at
  every position \<open>i\<close> the label is the integer that \<^verbatim>\<open>int(line.split(" ")[0])\<close> reads from the
  \<open>i\<close>-th line of the labels file and the image is the converted \<open>i\<close>-th entry of the listing.
\<close>

theorem load_data_aligned:
  assumes "load_data tf data_dir = Inr (images, labels)"
  shows "\<exists>label_file listing.
           labels_txt data_dir = Some label_file \<and> files data_dir = Some listing \<and>
           length images = length labels \<and> length images = length listing \<and>
           length listing \<le> length (file_lines label_file) \<and>
           (\<forall>i < length listing.
              py_int (first_field (file_lines label_file ! i)) = Some (labels ! i) \<and>
              map_option tf (listing ! i) = Some (images ! i))"
proof -
  from assms obtain label_file where lf: "labels_txt data_dir = Some label_file"
    by (cases "labels_txt data_dir") (auto simp: load_data_def)
  from assms lf obtain listing where ls: "files data_dir = Some listing"
    by (cases "files data_dir") (auto simp: load_data_def)
  from assms lf ls have "load_loop tf listing label_file [] [] = Inr (images, labels)"
    by (simp add: load_data_def)
  from load_loop_Inr [OF this]
  have len: "length listing \<le> length (file_lines label_file)"
    and im: "map Some images = map (map_option tf) listing"
    and la: "map Some labels =
      map (\<lambda>l. py_int (first_field l)) (take (length listing) (file_lines label_file))"
    by simp_all
  from im have li: "length images = length listing"
    by (metis length_map)
  from la len have ll: "length labels = length listing"
    by (metis length_map length_take min.absorb2)
  have "py_int (first_field (file_lines label_file ! i)) = Some (labels ! i) \<and>
        map_option tf (listing ! i) = Some (images ! i)" if i: "i < length listing" for i
  proof
    from i ll have "Some (labels ! i) = map Some labels ! i" by simp
    also have "\<dots> = py_int (first_field (file_lines label_file ! i))"
      using i len by (simp add: la)
    finally show "py_int (first_field (file_lines label_file ! i)) = Some (labels ! i)"
      by simp
    from i li have "Some (images ! i) = map Some images ! i" by simp
    also have "\<dots> = map_option tf (listing ! i)"
      using i by (simp add: im)
    finally show "map_option tf (listing ! i) = Some (images ! i)" by simp
  qed
  with lf ls li ll len show ?thesis by simp
qed

theorem load_data_aligned_witness:
  "load_data (\<lambda>r. r)
     \<lparr>labels_txt = Some ''1 x\<newline>0 y\<newline>'', files = Some [Some (5::nat), Some 7]\<rparr>
     = Inr ([5, 7], [1, 0]) \<and>
   (\<exists>label_file listing.
      Some ''1 x\<newline>0 y\<newline>'' = Some label_file \<and>
      Some [Some (5::nat), Some 7] = Some listing \<and>
      length [5::nat, 7] = length [1::int, 0] \<and> length [5::nat, 7] = length listing \<and>
      length listing \<le> length (file_lines label_file) \<and>
      (\<forall>i < length listing.
         py_int (first_field (file_lines label_file ! i)) = Some ([1, 0] ! i) \<and>
         map_option (\<lambda>r. r) (listing ! i) = Some ([5, 7] ! i)))"
proof -
  have run: "load_data (\<lambda>r. r)
     \<lparr>labels_txt = Some ''1 x\<newline>0 y\<newline>'', files = Some [Some (5::nat), Some 7]\<rparr>
     = Inr ([5, 7], [1, 0])"
    by (simp add: load_data_def first_field_def py_int_def parse_digits_def
        int_max_str_digits_def strip_def is_space_def is_digit_def digit_val_def)
  show ?thesis
    using run load_data_aligned [OF run] by simp
qed

section \<open>Properties of the Dataset Splitter\<close>

lemma permutation_length:
  "distinct permutation \<Longrightarrow> set permutation = {0..<n} \<Longrightarrow> length permutation = n"
  by (metis card_atLeastLessThan diff_zero distinct_card)

lemma validate_shuffle_split_ok:
  assumes "0 < test_size" "test_size < 1" "nat \<lceil>test_size * real n\<rceil> < n"
  shows "validate_shuffle_split n test_size
           = Inr (n - nat \<lceil>test_size * real n\<rceil>, nat \<lceil>test_size * real n\<rceil>)"
  using assms by (simp add: validate_shuffle_split_def Let_def)

lemma validate_shuffle_split_empty_train:
  assumes "n \<le> nat \<lceil>test_size * real n\<rceil>"
  shows "validate_shuffle_split n test_size = Inl ValueError"
  using assms by (simp add: validate_shuffle_split_def Let_def)

lemma default_test_share:
  assumes "2 \<le> n"
  shows "nat \<lceil>TEST_SIZE * real n\<rceil> < n"
proof -
  have "real_of_int \<lceil>TEST_SIZE * real n\<rceil> < TEST_SIZE * real n + 1"
    using ceiling_correct [of "TEST_SIZE * real n"] by linarith
  also have "\<dots> \<le> real n"
    using assms by (simp add: TEST_SIZE_def)
  finally have "\<lceil>TEST_SIZE * real n\<rceil> < int n" by linarith
  moreover have "0 \<le> \<lceil>TEST_SIZE * real n\<rceil>"
    by (simp add: TEST_SIZE_def)
  ultimately show ?thesis by (simp add: nat_less_iff)
qed

text \<open>
  Claim C8, as the code has it. Let the permutation be a permutation of the indices
  \<open>0..n-1\<close>, the two arrays have \<open>n\<close> entries and the ratio lie in \<open>(0, 1)\<close>. When the test share
  \<open>ceil(test_size * n)\<close> is smaller than \<open>n\<close>, the split returns the samples at two lists of
  indices that are disjoint, together cover all indices once, and whose lengths add up to
  \<open>n\<close>. Otherwise the train set would be empty and the split raises \<^verbatim>\<open>ValueError\<close>. With
  the default ratio \<open>TEST_SIZE = 0.3\<close> the split returns for every dataset of at least two
  samples.
\<close>

theorem train_test_split_partition:
  assumes "distinct permutation" and "set permutation = {0..<length X}"
    and "length X = length y" and "0 < test_size" and "test_size < 1"
  shows "(nat \<lceil>test_size * real (length X)\<rceil> < length X \<longrightarrow>
            (\<exists>ind_train ind_test.
               train_test_split permutation test_size X y
                 = Inr (map (nth X) ind_train, map (nth X) ind_test,
                        map (nth y) ind_train, map (nth y) ind_test) \<and>
               length ind_train + length ind_test = length X \<and>
               set ind_train \<inter> set ind_test = {} \<and>
               set ind_train \<union> set ind_test = {0..<length X} \<and>
               distinct ind_train \<and> distinct ind_test)) \<and>
         (length X \<le> nat \<lceil>test_size * real (length X)\<rceil> \<longrightarrow>
            train_test_split permutation test_size X y = Inl ValueError) \<and>
         TEST_SIZE = 3 / 10 \<and>
         (2 \<le> length X \<longrightarrow> nat \<lceil>TEST_SIZE * real (length X)\<rceil> < length X)"
proof (intro conjI impI)
  let ?n = "length X"
  let ?n_test = "nat \<lceil>test_size * real ?n\<rceil>"
  assume small: "?n_test < ?n"
  let ?ind_test = "take ?n_test permutation"
  let ?ind_train = "take (?n - ?n_test) (drop ?n_test permutation)"
  have len: "length permutation = ?n"
    using assms(1,2) by (rule permutation_length)
  have train: "?ind_train = drop ?n_test permutation"
    using len by simp
  have split: "permutation = ?ind_test @ ?ind_train"
    using train by simp
  have res: "train_test_split permutation test_size X y
      = Inr (map (nth X) ?ind_train, map (nth X) ?ind_test,
             map (nth y) ?ind_train, map (nth y) ?ind_test)"
    using assms(3) validate_shuffle_split_ok [OF assms(4,5) small]
    by (simp add: train_test_split_def Let_def)
  have lens: "length ?ind_train + length ?ind_test = ?n"
    using len small by simp
  have dist: "distinct (?ind_test @ ?ind_train)"
    using assms(1) split by simp
  then have disj: "set ?ind_train \<inter> set ?ind_test = {}"
    and d1: "distinct ?ind_train" and d2: "distinct ?ind_test"
    by (auto simp del: append_take_drop_id)
  have "set ?ind_train \<union> set ?ind_test = set (?ind_test @ ?ind_train)"
    by auto
  also have "\<dots> = {0..<?n}"
    using split assms(2) by simp
  finally have cover: "set ?ind_train \<union> set ?ind_test = {0..<?n}" .
  from res lens disj cover d1 d2
  show "\<exists>ind_train ind_test.
          train_test_split permutation test_size X y
            = Inr (map (nth X) ind_train, map (nth X) ind_test,
                   map (nth y) ind_train, map (nth y) ind_test) \<and>
          length ind_train + length ind_test = length X \<and>
          set ind_train \<inter> set ind_test = {} \<and>
          set ind_train \<union> set ind_test = {0..<length X} \<and>
          distinct ind_train \<and> distinct ind_test"
    by blast
next
  assume "length X \<le> nat \<lceil>test_size * real (length X)\<rceil>"
  then show "train_test_split permutation test_size X y = Inl ValueError"
    using assms(3) by (simp add: train_test_split_def validate_shuffle_split_empty_train)
next
  show "TEST_SIZE = 3 / 10" by (simp add: TEST_SIZE_def)
next
  assume "2 \<le> length X"
  then show "nat \<lceil>TEST_SIZE * real (length X)\<rceil> < length X"
    by (rule default_test_share)
qed

theorem train_test_split_partition_witness:
  "train_test_split [2, 0, 3, 1] TEST_SIZE [''a'', ''b'', ''c'', ''d''] [1, 0, 1, 0::int]
     = Inr ([''d'', ''b''], [''c'', ''a''], [0, 0], [1, 1]) \<and>
   (\<exists>ind_train ind_test.
      train_test_split [2, 0, 3, 1] TEST_SIZE [''a'', ''b'', ''c'', ''d''] [1, 0, 1, 0::int]
        = Inr (map (nth [''a'', ''b'', ''c'', ''d'']) ind_train,
               map (nth [''a'', ''b'', ''c'', ''d'']) ind_test,
               map (nth [1, 0, 1, 0]) ind_train, map (nth [1, 0, 1, 0]) ind_test) \<and>
      length ind_train + length ind_test = length [''a'', ''b'', ''c'', ''d''] \<and>
      set ind_train \<inter> set ind_test = {} \<and>
      set ind_train \<union> set ind_test = {0..<length [''a'', ''b'', ''c'', ''d'']} \<and>
      distinct ind_train \<and> distinct ind_test)"
proof -
  have d: "distinct [2, 0, 3, 1::nat]" by simp
  have s: "set [2, 0, 3, 1::nat] = {0..<length [''a'', ''b'', ''c'', ''d'']}"
    by (auto simp: atLeastLessThan_def)
  have l: "length [''a'', ''b'', ''c'', ''d''] = length [1, 0, 1, 0::int]" by simp
  have r: "0 < TEST_SIZE" "TEST_SIZE < 1" by (simp_all add: TEST_SIZE_def)
  have c: "nat \<lceil>TEST_SIZE * real (length [''a'', ''b'', ''c'', ''d''])\<rceil>
      < length [''a'', ''b'', ''c'', ''d'']"
    by (simp add: TEST_SIZE_def)
  have v: "train_test_split [2, 0, 3, 1] TEST_SIZE [''a'', ''b'', ''c'', ''d''] [1, 0, 1, 0::int]
     = Inr ([''d'', ''b''], [''c'', ''a''], [0, 0], [1, 1])"
    by (simp add: train_test_split_def validate_shuffle_split_def TEST_SIZE_def Let_def)
  from train_test_split_partition [OF d s l r, THEN conjunct1, THEN mp, OF c] v
  show ?thesis by (intro conjI)
qed

text \<open>
  The claim as the specification states it fails on a dataset of one sample: at the default
  ratio the whole dataset would be the test share, and the split raises.
\<close>

theorem train_test_split_counterexample:
  "distinct [0::nat] \<and> set [0::nat] = {0..<length [''a'']} \<and>
   length [''a''] = length [1::int] \<and> 0 < TEST_SIZE \<and> TEST_SIZE < 1 \<and>
   train_test_split [0] TEST_SIZE [''a''] [1::int] = Inl ValueError"
  by (simp add: train_test_split_def validate_shuffle_split_def TEST_SIZE_def Let_def)

section \<open>Properties of the Classifier Model\<close>

subsection \<open>Rounding and the sigmoid\<close>

lemma round_half_even_le_ceiling: "round_half_even q \<le> \<lceil>q\<rceil>"
proof -
  have "\<lfloor>q\<rfloor> \<le> \<lceil>q\<rceil>" by (simp add: floor_le_ceiling)
  moreover have "\<lfloor>q\<rfloor> + 1 \<le> \<lceil>q\<rceil>" if "1 / 2 \<le> q - of_int \<lfloor>q\<rfloor>"
  proof -
    from that have "of_int \<lfloor>q\<rfloor> < q" by linarith
    then show ?thesis by linarith
  qed
  ultimately show ?thesis
    by (auto simp: round_half_even_def Let_def)
qed

lemma round_half_even_nonneg: "0 \<le> q \<Longrightarrow> 0 \<le> round_half_even q"
  by (auto simp: round_half_even_def Let_def)

lemma f32_round_unit_interval:
  assumes "0 \<le> v" "v \<le> 1"
  shows "\<exists>y. f32_round v = Finite y \<and> 0 \<le> y \<and> y \<le> 1"
proof (cases "v = 0")
  case True
  then show ?thesis by (simp add: f32_round_def)
next
  case False
  with assms have pos: "0 < v" by simp
  define e where "e = max \<lfloor>log 2 \<bar>v\<bar>\<rfloor> (- 126)"
  define ulp :: real where "ulp = 2 powr (of_int e - 23)"
  define r where "r = round_half_even (v / ulp)"
  define y where "y = of_int r * ulp"
  have "log 2 \<bar>v\<bar> \<le> 0" using pos assms(2) by simp
  then have "\<lfloor>log 2 \<bar>v\<bar>\<rfloor> \<le> 0" by linarith
  then have e0: "e \<le> 0" by (simp add: e_def)
  have ulp_pos: "0 < ulp" by (simp add: ulp_def)
  define M where "M = (2::int) ^ nat (23 - e)"
  have "2 powr (23 - of_int e) = (2::real) ^ nat (23 - e)"
    using e0 by (simp add: powr_realpow [symmetric])
  then have M: "of_int M = 1 / ulp"
    by (simp add: M_def ulp_def powr_diff)
  have "v / ulp \<le> 1 / ulp" using assms(2) ulp_pos by (simp add: divide_right_mono)
  then have "v / ulp \<le> of_int M" by (simp add: M)
  then have "\<lceil>v / ulp\<rceil> \<le> M" by (simp add: ceiling_le_iff)
  with round_half_even_le_ceiling [of "v / ulp"] have rM: "r \<le> M" by (simp add: r_def)
  have r0: "0 \<le> r" unfolding r_def
    using pos ulp_pos by (intro round_half_even_nonneg) simp
  have y0: "0 \<le> y" using r0 ulp_pos by (simp add: y_def)
  have "y \<le> of_int M * ulp" using rM ulp_pos by (simp add: y_def mult_right_mono)
  also have "\<dots> = 1" using ulp_pos by (simp add: M)
  finally have y1: "y \<le> 1" .
  have "f32_round v = Finite y"
    using False y0 y1 by (simp add: f32_round_def Let_def e_def ulp_def r_def y_def)
  with y0 y1 show ?thesis by blast
qed

lemma fsigmoid_range:
  "u \<noteq> NaN \<Longrightarrow> \<exists>y. fsigmoid u = Finite y \<and> 0 \<le> y \<and> y \<le> 1"
proof (cases u)
  case (Finite a)
  have "0 < exp (- a)" by simp
  then have "0 \<le> 1 / (1 + exp (- a))" "1 / (1 + exp (- a)) \<le> 1"
    by (simp_all add: add_pos_pos less_imp_le)
  then show ?thesis using Finite by (simp add: f32_round_unit_interval)
qed simp_all

lemma fsigmoid_NaN_iff: "fsigmoid u = NaN \<longleftrightarrow> u = NaN"
  using fsigmoid_range [of u] by (cases "u = NaN") auto

subsection \<open>Shapes through the layers\<close>

lemma conv1_shape:
  "shape x = [B, 3, IMG_HEIGHT, IMG_WIDTH] \<Longrightarrow>
     \<exists>y. conv2d_apply (conv1 p) x = Inr y \<and> shape y = [B, 32, 192, 180]"
  by (simp add: conv2d_apply_def conv1_def IMG_HEIGHT_def IMG_WIDTH_def)

lemma pool1_shape:
  "shape x = [B, 32, 192, 180] \<Longrightarrow>
     \<exists>y. max_pool2d pool (relu x) = Inr y \<and> shape y = [B, 32, 96, 90]"
  by (simp add: max_pool2d_def pool_def relu_def)

lemma conv2_shape:
  "shape x = [B, 32, 96, 90] \<Longrightarrow>
     \<exists>y. conv2d_apply (conv2 p) x = Inr y \<and> shape y = [B, 64, 96, 90]"
  by (simp add: conv2d_apply_def conv2_def)

lemma pool2_shape:
  "shape x = [B, 64, 96, 90] \<Longrightarrow>
     \<exists>y. max_pool2d pool (relu x) = Inr y \<and> shape y = [B, 64, 48, 45]"
  by (simp add: max_pool2d_def pool_def relu_def)

lemma view_shape:
  "shape x = [B, 64, 48, 45] \<Longrightarrow>
     \<exists>y. view_rows (64 * 45 * 48) x = Inr y \<and> shape y = [B, 138240]"
  by (simp add: view_rows_def numel_def)

lemma fc1_shape:
  "shape x = [B, 138240] \<Longrightarrow>
     \<exists>y. linear_apply (fc1 p) x = Inr y \<and> shape y = [B, 512]"
  by (simp add: linear_apply_def fc1_def)

lemma fc2_shape:
  "shape x = [B, 512] \<Longrightarrow>
     \<exists>y. linear_apply (fc2 p) (relu x) = Inr y \<and> shape y = [B, 1]"
  by (simp add: linear_apply_def fc2_def relu_def)

lemma sigmoid_shape: "shape (sigmoid x) = shape x"
  by (simp add: sigmoid_def)

lemma sigmoid_elem: "elem (sigmoid x) idx = fsigmoid (elem x idx)"
  by (simp add: sigmoid_def)

lemma forward_pre_sigmoid:
  "forward p x = then_do (pre_sigmoid p x) (\<lambda>z. Inr (sigmoid z))"
  by (simp add: forward_def pre_sigmoid_def then_do_def split: sum.splits)

lemma pre_sigmoid_shape:
  assumes "shape x = [B, 3, IMG_HEIGHT, IMG_WIDTH]"
  shows "\<exists>x1 x2 x3 x4 x5 x6 z.
           conv2d_apply (conv1 p) x = Inr x1 \<and> shape x1 = [B, 32, 192, 180] \<and>
           max_pool2d pool (relu x1) = Inr x2 \<and> shape x2 = [B, 32, 96, 90] \<and>
           conv2d_apply (conv2 p) x2 = Inr x3 \<and> shape x3 = [B, 64, 96, 90] \<and>
           max_pool2d pool (relu x3) = Inr x4 \<and> shape x4 = [B, 64, 48, 45] \<and>
           view_rows 138240 x4 = Inr x5 \<and> shape x5 = [B, 138240] \<and>
           linear_apply (fc1 p) x5 = Inr x6 \<and> shape x6 = [B, 512] \<and>
           linear_apply (fc2 p) (relu x6) = Inr z \<and> shape z = [B, 1] \<and>
           pre_sigmoid p x = Inr z"
proof -
  from conv1_shape [OF assms] obtain x1
    where s1: "conv2d_apply (conv1 p) x = Inr x1" "shape x1 = [B, 32, 192, 180]" by blast
  from pool1_shape [OF s1(2)] obtain x2
    where s2: "max_pool2d pool (relu x1) = Inr x2" "shape x2 = [B, 32, 96, 90]" by blast
  from conv2_shape [OF s2(2)] obtain x3
    where s3: "conv2d_apply (conv2 p) x2 = Inr x3" "shape x3 = [B, 64, 96, 90]" by blast
  from pool2_shape [OF s3(2)] obtain x4
    where s4: "max_pool2d pool (relu x3) = Inr x4" "shape x4 = [B, 64, 48, 45]" by blast
  from view_shape [OF s4(2)] obtain x5
    where s5: "view_rows (64 * 45 * 48) x4 = Inr x5" "shape x5 = [B, 138240]" by blast
  from fc1_shape [OF s5(2)] obtain x6
    where s6: "linear_apply (fc1 p) x5 = Inr x6" "shape x6 = [B, 512]" by blast
  from fc2_shape [OF s6(2)] obtain z
    where s7: "linear_apply (fc2 p) (relu x6) = Inr z" "shape z = [B, 1]" by blast
  have v: "view_rows 138240 x4 = Inr x5" using s5(1) by simp
  have "pre_sigmoid p x = Inr z"
    by (simp add: pre_sigmoid_def then_do_def s1(1) s2(1) s3(1) s4(1) v s6(1) s7(1))
  with s1 s2 s3 s4 v s5(2) s6 s7 show ?thesis by blast
qed

text \<open>
  Claim C3, as the code has it. On a batch of shape \<open>(B, 3, 192, 180)\<close> the forward pass
  raises nothing and returns a tensor of shape \<open>(B, 1)\<close>, the sigmoid of the tensor the layers
  before it compute. An entry lies in \<open>[0, 1]\<close> unless the value handed to the sigmoid is NaN;
  then the entry is NaN.
\<close>

theorem forward_shape_and_range:
  assumes "shape x = [B, 3, IMG_HEIGHT, IMG_WIDTH]"
  shows "\<exists>z y. pre_sigmoid p x = Inr z \<and> forward p x = Inr y \<and> shape y = [B, 1] \<and>
           (\<forall>idx. elem y idx = fsigmoid (elem z idx) \<and>
                  (elem z idx = NaN \<longrightarrow> elem y idx = NaN) \<and>
                  (elem z idx \<noteq> NaN \<longrightarrow>
                     (\<exists>v. elem y idx = Finite v \<and> 0 \<le> v \<and> v \<le> 1)))"
proof -
  from pre_sigmoid_shape [OF assms] obtain z
    where z: "pre_sigmoid p x = Inr z" and sz: "shape z = [B, 1]"
    by blast
  have f: "forward p x = Inr (sigmoid z)"
    by (simp add: forward_pre_sigmoid z then_do_def)
  have sh: "shape (sigmoid z) = [B, 1]"
    by (simp add: sigmoid_shape sz)
  have "elem (sigmoid z) idx = fsigmoid (elem z idx) \<and>
        (elem z idx = NaN \<longrightarrow> elem (sigmoid z) idx = NaN) \<and>
        (elem z idx \<noteq> NaN \<longrightarrow> (\<exists>v. elem (sigmoid z) idx = Finite v \<and> 0 \<le> v \<and> v \<le> 1))"
    for idx
    using fsigmoid_range [of "elem z idx"] by (simp add: sigmoid_elem)
  with z f sh show ?thesis by blast
qed

subsection \<open>One NaN pixel\<close>

lemma fadd_NaN_left: "fadd NaN v = NaN"
  by simp

lemma fadd_NaN_right: "fadd u NaN = NaN"
  by (cases u) simp_all

lemma fmul_NaN_right: "fmul u NaN = NaN"
  by (cases u) simp_all

lemma fmax_NaN_right: "fmax u NaN = NaN"
  by (cases u) simp_all

lemma foldl_fadd_from_NaN: "foldl fadd NaN vs = NaN"
  by (induction vs) simp_all

lemma foldl_fadd_NaN: "NaN \<in> set vs \<Longrightarrow> foldl fadd u vs = NaN"
proof (induction vs arbitrary: u)
  case Nil
  then show ?case by simp
next
  case (Cons v vs)
  show ?case
  proof (cases "v = NaN")
    case True
    then show ?thesis by (simp add: fadd_NaN_right foldl_fadd_from_NaN)
  next
    case False
    with Cons.prems have "NaN \<in> set vs" by simp
    then show ?thesis by (simp add: Cons.IH)
  qed
qed

lemma foldl_fmax_from_NaN: "foldl fmax NaN vs = NaN"
  by (induction vs) simp_all

lemma foldl_fmax_NaN: "NaN \<in> set vs \<Longrightarrow> foldl fmax u vs = NaN"
proof (induction vs arbitrary: u)
  case Nil
  then show ?case by simp
next
  case (Cons v vs)
  show ?case
  proof (cases "v = NaN")
    case True
    then show ?thesis by (simp add: fmax_NaN_right foldl_fmax_from_NaN)
  next
    case False
    with Cons.prems have "NaN \<in> set vs" by simp
    then show ?thesis by (simp add: Cons.IH)
  qed
qed

lemma maximum_NaN: "NaN \<in> set vs \<Longrightarrow> maximum vs = NaN"
proof (cases vs)
  case Nil
  then show "NaN \<in> set vs \<Longrightarrow> ?thesis" by simp
next
  case (Cons v rest)
  assume "NaN \<in> set vs"
  with Cons have "v = NaN \<or> NaN \<in> set rest" by auto
  then show ?thesis
    using Cons by (auto simp: maximum_def foldl_fmax_from_NaN foldl_fmax_NaN)
qed

lemma relu_NaN: "elem x idx = NaN \<Longrightarrow> elem (relu x) idx = NaN"
  by (simp add: relu_def)

text \<open>A convolution of stride 1 whose padding is inside the kernel keeps a NaN in place.\<close>

lemma conv2d_NaN:
  assumes "conv2d_apply l x = Inr y" and "shape x = [B, C, H, W]"
    and "stride l = 1" and "padding l < kernel_size l"
    and "c < C" and "i < H" and "j < W" and "elem x [b, c, i, j] = NaN"
  shows "elem y [b, oc, i, j] = NaN"
proof -
  let ?terms = "concat (map (\<lambda>c. concat (map (\<lambda>di. map (\<lambda>dj.
      fmul (weight l oc c di dj)
        (padded x (padding l) b c (i * stride l + di) (j * stride l + dj)))
      [0..<kernel_size l]) [0..<kernel_size l])) [0..<C])"
  have y: "elem y [b, oc, i, j] = foldl fadd (bias l oc) ?terms"
    using assms(1,2) by (auto simp: conv2d_apply_def split: if_splits)
  have "padded x (padding l) b c (i * stride l + padding l) (j * stride l + padding l) = NaN"
    using assms(2,3,6,7,8) by (simp add: padded_def)
  then have "fmul (weight l oc c (padding l) (padding l))
      (padded x (padding l) b c (i * stride l + padding l) (j * stride l + padding l)) = NaN"
    by (simp add: fmul_NaN_right)
  then have "\<exists>c' \<in> set [0..<C]. \<exists>di \<in> set [0..<kernel_size l]. \<exists>dj \<in> set [0..<kernel_size l].
      fmul (weight l oc c' di dj)
        (padded x (padding l) b c' (i * stride l + di) (j * stride l + dj)) = NaN"
    using assms(4,5) by (intro bexI [of _ c] bexI [of _ "padding l"]) simp_all
  then have "NaN \<in> set ?terms"
    by (simp add: image_iff) metis
  then show ?thesis by (simp add: y foldl_fadd_NaN)
qed

lemma max_pool2d_NaN:
  assumes "max_pool2d l x = Inr y" and "shape x = [B, C, H, W]"
    and "elem x [b, c, i * pool_stride l, j * pool_stride l] = NaN"
  shows "elem y [b, c, i, j] = NaN"
proof -
  let ?window = "concat (map (\<lambda>di. map (\<lambda>dj.
      elem x [b, c, i * pool_stride l + di, j * pool_stride l + dj])
      [0..<pool_kernel_size l]) [0..<pool_kernel_size l])"
  have k: "0 < pool_kernel_size l" and y: "elem y [b, c, i, j] = maximum ?window"
    using assms(1,2) by (auto simp: max_pool2d_def split: if_splits)
  have "\<exists>di \<in> set [0..<pool_kernel_size l]. \<exists>dj \<in> set [0..<pool_kernel_size l].
      elem x [b, c, i * pool_stride l + di, j * pool_stride l + dj] = NaN"
    using k assms(3) by (intro bexI [of _ 0]) simp_all
  then have "NaN \<in> set ?window"
    by (simp add: image_iff) metis
  then show ?thesis by (simp add: y maximum_NaN)
qed

lemma linear_NaN:
  assumes "linear_apply l x = Inr y" and "i < in_features l" and "elem x [b, i] = NaN"
  shows "elem y [b, k] = NaN"
proof -
  have y: "elem y [b, k] = foldl fadd (lin_bias l k)
      (map (\<lambda>i. fmul (lin_weight l k i) (elem x [b, i])) [0..<in_features l])"
    using assms(1) by (auto simp: linear_apply_def split: if_splits)
  have "fmul (lin_weight l k i) (elem x [b, i]) = NaN"
    by (simp add: assms(3) fmul_NaN_right)
  then have "\<exists>i' \<in> set [0..<in_features l]. fmul (lin_weight l k i') (elem x [b, i']) = NaN"
    using assms(2) by (intro bexI [of _ i]) simp_all
  then have "NaN \<in> set (map (\<lambda>i. fmul (lin_weight l k i) (elem x [b, i])) [0..<in_features l])"
    by (simp add: image_iff) metis
  then show ?thesis by (simp add: y foldl_fadd_NaN)
qed

text \<open>
  Whatever the parameters are, a batch of the configured shape whose first pixel is NaN
  comes out of the network with NaN as the first output.
\<close>

lemma forward_NaN_pixel:
  assumes "shape x = [B, 3, IMG_HEIGHT, IMG_WIDTH]" and "elem x [0, 0, 0, 0] = NaN"
  shows "\<exists>y. forward p x = Inr y \<and> elem y [0, 0] = NaN"
proof -
  from pre_sigmoid_shape [OF assms(1), of p] obtain x1 x2 x3 x4 x5 x6 z where
    c1: "conv2d_apply (conv1 p) x = Inr x1" and s1: "shape x1 = [B, 32, 192, 180]" and
    p1: "max_pool2d pool (relu x1) = Inr x2" and s2: "shape x2 = [B, 32, 96, 90]" and
    c2: "conv2d_apply (conv2 p) x2 = Inr x3" and s3: "shape x3 = [B, 64, 96, 90]" and
    p2: "max_pool2d pool (relu x3) = Inr x4" and s4: "shape x4 = [B, 64, 48, 45]" and
    vw: "view_rows 138240 x4 = Inr x5" and
    l1: "linear_apply (fc1 p) x5 = Inr x6" and
    l2: "linear_apply (fc2 p) (relu x6) = Inr z" and
    z: "pre_sigmoid p x = Inr z"
    by blast
  have n1: "elem x1 [0, 0, 0, 0] = NaN"
    using c1 assms(1) _ _ _ _ _ assms(2)
    by (rule conv2d_NaN) (simp_all add: conv1_def IMG_HEIGHT_def IMG_WIDTH_def)
  have n2: "elem x2 [0, 0, 0, 0] = NaN"
    using p1 by (rule max_pool2d_NaN) (simp_all add: relu_def s1 n1)
  have n3: "elem x3 [0, 0, 0, 0] = NaN"
    using c2 s2 _ _ _ _ _ n2 by (rule conv2d_NaN) (simp_all add: conv2_def)
  have n4: "elem x4 [0, 0, 0, 0] = NaN"
    using p2 by (rule max_pool2d_NaN) (simp_all add: relu_def s3 n3)
  have n5: "elem x5 [0, 0] = NaN"
    using vw n4 by (auto simp: view_rows_def s4 split: if_splits)
  have n6: "elem x6 [0, 0] = NaN"
    using l1 _ n5 by (rule linear_NaN) (simp add: fc1_def)
  have n7: "elem z [0, 0] = NaN"
    using l2 by (rule linear_NaN [where i = 0]) (simp_all add: fc2_def relu_def n6)
  have "forward p x = Inr (sigmoid z)"
    by (simp add: forward_pre_sigmoid z then_do_def)
  moreover have "elem (sigmoid z) [0, 0] = NaN"
    by (simp add: sigmoid_elem n7)
  ultimately show ?thesis by blast
qed

theorem forward_shape_and_range_witness:
  "shape zero_batch = [2, 3, IMG_HEIGHT, IMG_WIDTH] \<and>
   (\<exists>z y. pre_sigmoid zero_params zero_batch = Inr z \<and>
      forward zero_params zero_batch = Inr y \<and> shape y = [2, 1] \<and>
      elem y [1, 0] = fsigmoid (elem z [1, 0]))"
proof -
  have sh: "shape zero_batch = [2, 3, IMG_HEIGHT, IMG_WIDTH]"
    by (simp add: zero_batch_def IMG_HEIGHT_def IMG_WIDTH_def)
  from forward_shape_and_range [OF sh, of zero_params] sh show ?thesis by blast
qed

text \<open>
  The claim as the specification states it fails on a batch with a NaN pixel: the output
  for it is NaN, which lies in no interval.
\<close>

theorem forward_range_counterexample:
  "shape nan_batch = [1, 3, IMG_HEIGHT, IMG_WIDTH] \<and>
   (\<exists>y. forward zero_params nan_batch = Inr y \<and> elem y [0, 0] = NaN \<and>
        \<not> (\<exists>v. elem y [0, 0] = Finite v \<and> 0 \<le> v \<and> v \<le> 1))"
proof -
  have sh: "shape nan_batch = [1, 3, IMG_HEIGHT, IMG_WIDTH]"
    by (simp add: nan_batch_def IMG_HEIGHT_def IMG_WIDTH_def)
  have px: "elem nan_batch [0, 0, 0, 0] = NaN"
    by (simp add: nan_batch_def)
  from forward_NaN_pixel [OF sh px, of zero_params] obtain y
    where "forward zero_params nan_batch = Inr y" and "elem y [0, 0] = NaN"
    by blast
  then have "forward zero_params nan_batch = Inr y \<and> elem y [0, 0] = NaN \<and>
      \<not> (\<exists>v. elem y [0, 0] = Finite v \<and> 0 \<le> v \<and> v \<le> 1)"
    by simp
  with sh show ?thesis by blast
qed

section \<open>Sequencing in the world\<close>

lemma returns_eq [simp]: "returns v w = (w', r) \<longleftrightarrow> w' = w \<and> r = Inr v"
  by (auto simp: returns_def)

lemma attempt_eq:
  "attempt c r w = (w', r') \<longleftrightarrow>
     r' = r \<and>
     w' = w\<lparr>calls := calls w @ [(c, case r of Inl e \<Rightarrow> Raised e | Inr v \<Rightarrow> Returned)]\<rparr>"
  by (auto simp: attempt_def)

lemma attempt_Inr [simp]:
  "attempt c (Inr v) w = (w\<lparr>calls := calls w @ [(c, Returned)]\<rparr>, Inr v)"
  by (simp add: attempt_def)

lemma attempt_Inl [simp]:
  "attempt c (Inl e) w = (w\<lparr>calls := calls w @ [(c, Raised e)]\<rparr>, Inl e)"
  by (simp add: attempt_def)

lemma attempt_eq_Inr:
  "attempt c r w = (w', Inr v) \<longleftrightarrow> r = Inr v \<and> w' = w\<lparr>calls := calls w @ [(c, Returned)]\<rparr>"
  by (auto simp: attempt_def)

lemma divide_eq_Inr:
  "divide a n w = (w', Inr v) \<longleftrightarrow>
     n \<noteq> 0 \<and> v = a / real n \<and> w' = w\<lparr>calls := calls w @ [(Divide, Returned)]\<rparr>"
  by (auto simp: divide_def attempt_def)

lemma and_then_Inr:
  "and_then m f w = (w', Inr y) \<longleftrightarrow> (\<exists>w1 v. m w = (w1, Inr v) \<and> f v w1 = (w', Inr y))"
  by (auto simp: and_then_def split: prod.splits sum.splits)

lemma and_then_Inl:
  "and_then m f w = (w', Inl e) \<longleftrightarrow>
     m w = (w', Inl e) \<or> (\<exists>w1 v. m w = (w1, Inr v) \<and> f v w1 = (w', Inl e))"
  by (auto simp: and_then_def split: prod.splits sum.splits)

lemma and_then_step: "m w = (w1, Inr v) \<Longrightarrow> and_then m f w = f v w1"
  by (simp add: and_then_def)

lemma and_then_raise: "m w = (w1, Inl e) \<Longrightarrow> and_then m f w = (w1, Inl e)"
  by (simp add: and_then_def)

lemma run_cases:
  obtains (Returns) w' v where "m w = (w', Inr v)"
  | (Raises) w' e where "m w = (w', Inl e)"
  by (cases "m w"; cases "snd (m w)") auto

subsection \<open>Quiet pieces\<close>

lemma quietI: "(\<And>w w' r. m w = (w', r) \<Longrightarrow> events w' = events w \<and> saved w' = saved w) \<Longrightarrow> quiet m"
  unfolding quiet_def by (metis prod.collapse)

lemma quietD: "quiet m \<Longrightarrow> m w = (w', r) \<Longrightarrow> events w' = events w \<and> saved w' = saved w"
  unfolding quiet_def by (metis fst_conv)

lemma quiet_returns [intro!]: "quiet (returns v)"
  by (rule quietI) simp

lemma quiet_attempt [intro!]: "quiet (attempt c r)"
  by (rule quietI) (auto simp: attempt_eq)

lemma quiet_divide [intro!]: "quiet (divide a n)"
  by (simp add: divide_def quiet_attempt)

lemma quiet_and_then [intro!]:
  assumes "quiet m" and "\<And>v. quiet (f v)"
  shows "quiet (and_then m f)"
proof (rule quietI)
  fix w w' r
  assume run: "and_then m f w = (w', r)"
  show "events w' = events w \<and> saved w' = saved w"
  proof (cases rule: run_cases [of m w])
    case (Returns w1 v)
    with run have "f v w1 = (w', r)" by (simp add: and_then_step)
    with quietD [OF assms(2)] quietD [OF assms(1) Returns] show ?thesis by metis
  next
    case (Raises w1 e)
    with run have "w' = w1" by (simp add: and_then_raise)
    with quietD [OF assms(1) Raises] show ?thesis by simp
  qed
qed

lemma quiet_case_prod [intro!]: "(\<And>a b. quiet (f a b)) \<Longrightarrow> quiet (case ab of (a, b) \<Rightarrow> f a b)"
  by (cases ab) simp

subsection \<open>Oblivious pieces\<close>

lemma oblivious_returns [intro!]: "oblivious (returns v)"
  by (simp add: oblivious_def returns_def)

lemma oblivious_attempt [intro!]: "oblivious (attempt c r)"
  by (simp add: oblivious_def attempt_def)

lemma oblivious_divide [intro!]: "oblivious (divide a n)"
  by (simp add: divide_def oblivious_attempt)

lemma oblivious_and_then [intro!]:
  assumes "oblivious m" and "\<And>v. oblivious (f v)"
  shows "oblivious (and_then m f)"
proof -
  have "snd (and_then m f w) = snd (and_then m f w')" for w w'
  proof (cases rule: run_cases [of m w])
    case (Returns w1 v)
    with assms(1) have "snd (m w') = Inr v" by (metis oblivious_def snd_conv)
    then obtain w1' where "m w' = (w1', Inr v)" by (metis prod.collapse)
    with Returns assms(2) show ?thesis
      by (simp add: and_then_step) (metis oblivious_def)
  next
    case (Raises w1 e)
    with assms(1) have "snd (m w') = Inl e" by (metis oblivious_def snd_conv)
    then obtain w1' where "m w' = (w1', Inl e)" by (metis prod.collapse)
    with Raises show ?thesis by (simp add: and_then_raise)
  qed
  then show ?thesis by (simp add: oblivious_def)
qed

lemma oblivious_case_prod [intro!]:
  "(\<And>a b. oblivious (f a b)) \<Longrightarrow> oblivious (case ab of (a, b) \<Rightarrow> f a b)"
  by (cases ab) simp

subsection \<open>Unforgiving pieces\<close>

lemma clean_Nil [simp]: "clean []"
  by (simp add: clean_def)

lemma clean_append [simp]: "clean (xs @ ys) \<longleftrightarrow> clean xs \<and> clean ys"
  by (simp add: clean_def)

lemma clean_Returned [simp]: "clean [(c, Returned)]"
  by (simp add: clean_def)

lemma unforgivingI:
  assumes "\<And>w w' v. m w = (w', Inr v) \<Longrightarrow> \<exists>new. calls w' = calls w @ new \<and> clean new"
    and "\<And>w w' e. m w = (w', Inl e) \<Longrightarrow>
           \<exists>pre c. calls w' = calls w @ pre @ [(c, Raised e)] \<and> clean pre \<and>
                   \<not> (c = MakeDirs \<and> e = FileExistsError)"
  shows "unforgiving m"
  unfolding unforgiving_def
proof
  fix w
  show "case m w of
          (w', Inr v) \<Rightarrow> (\<exists>new. calls w' = calls w @ new \<and> clean new)
        | (w', Inl e) \<Rightarrow>
            (\<exists>pre c. calls w' = calls w @ pre @ [(c, Raised e)] \<and> clean pre \<and>
                     \<not> (c = MakeDirs \<and> e = FileExistsError))"
    using assms by (cases rule: run_cases [of m w]) auto
qed

lemma unforgiving_Inr:
  "unforgiving m \<Longrightarrow> m w = (w', Inr v) \<Longrightarrow> \<exists>new. calls w' = calls w @ new \<and> clean new"
  unfolding unforgiving_def by (drule spec [of _ w]) simp

lemma unforgiving_Inl:
  "unforgiving m \<Longrightarrow> m w = (w', Inl e) \<Longrightarrow>
     \<exists>pre c. calls w' = calls w @ pre @ [(c, Raised e)] \<and> clean pre \<and>
             \<not> (c = MakeDirs \<and> e = FileExistsError)"
  unfolding unforgiving_def by (drule spec [of _ w]) simp

lemma raised_last:
  assumes "calls w' = calls w @ [(c, Raised e)]" and "c \<noteq> MakeDirs"
  shows "\<exists>pre c. calls w' = calls w @ pre @ [(c, Raised e)] \<and> clean pre \<and>
           \<not> (c = MakeDirs \<and> e = FileExistsError)"
  using assms by (intro exI [of _ "[]"] exI [of _ c]) simp

lemma unforgiving_returns [intro!]: "unforgiving (returns v)"
  by (rule unforgivingI) auto

lemma unforgiving_attempt:
  assumes "c \<noteq> MakeDirs"
  shows "unforgiving (attempt c r)"
proof (rule unforgivingI)
  fix w w' :: "'a world" and v
  assume "attempt c r w = (w', Inr v)"
  then have "calls w' = calls w @ [(c, Returned)]" by (auto simp: attempt_eq)
  then show "\<exists>new. calls w' = calls w @ new \<and> clean new" by auto
next
  fix w w' :: "'a world" and e
  assume "attempt c r w = (w', Inl e)"
  then have "calls w' = calls w @ [(c, Raised e)]" by (auto simp: attempt_eq)
  then show "\<exists>pre c. calls w' = calls w @ pre @ [(c, Raised e)] \<and> clean pre \<and>
          \<not> (c = MakeDirs \<and> e = FileExistsError)"
    using assms by (rule raised_last)
qed

lemma unforgiving_divide [intro!]: "unforgiving (divide a n)"
  by (simp add: divide_def unforgiving_attempt)

lemma unforgiving_and_then [intro!]:
  assumes "unforgiving m" and "\<And>v. unforgiving (f v)"
  shows "unforgiving (and_then m f)"
proof (rule unforgivingI)
  fix w w' y
  assume "and_then m f w = (w', Inr y)"
  then obtain w1 v where m: "m w = (w1, Inr v)" and f: "f v w1 = (w', Inr y)"
    by (auto simp: and_then_Inr)
  from unforgiving_Inr [OF assms(1) m] unforgiving_Inr [OF assms(2) f]
  obtain new1 new2 where "calls w1 = calls w @ new1" "clean new1"
    "calls w' = calls w1 @ new2" "clean new2"
    by blast
  then have "calls w' = calls w @ (new1 @ new2) \<and> clean (new1 @ new2)" by simp
  then show "\<exists>new. calls w' = calls w @ new \<and> clean new" by blast
next
  fix w w' e
  assume "and_then m f w = (w', Inl e)"
  then consider "m w = (w', Inl e)"
    | w1 v where "m w = (w1, Inr v)" "f v w1 = (w', Inl e)"
    by (auto simp: and_then_Inl)
  then show "\<exists>pre c. calls w' = calls w @ pre @ [(c, Raised e)] \<and> clean pre \<and>
          \<not> (c = MakeDirs \<and> e = FileExistsError)"
  proof cases
    case 1
    then show ?thesis by (rule unforgiving_Inl [OF assms(1)])
  next
    case 2
    from unforgiving_Inr [OF assms(1) 2(1)] unforgiving_Inl [OF assms(2) 2(2)]
    obtain new1 pre c where "calls w1 = calls w @ new1" "clean new1"
      "calls w' = calls w1 @ pre @ [(c, Raised e)]" "clean pre"
      "\<not> (c = MakeDirs \<and> e = FileExistsError)"
      by blast
    then have "calls w' = calls w @ (new1 @ pre) @ [(c, Raised e)] \<and> clean (new1 @ pre) \<and>
        \<not> (c = MakeDirs \<and> e = FileExistsError)"
      by simp
    then show ?thesis by blast
  qed
qed

lemma unforgiving_case_prod [intro!]:
  "(\<And>a b. unforgiving (f a b)) \<Longrightarrow> unforgiving (case ab of (a, b) \<Rightarrow> f a b)"
  by (cases ab) simp

lemma unforgiving_emit [intro!]: "unforgiving (emit E ev)"
proof (rule unforgivingI)
  fix w w' :: "'a world" and v
  assume "emit E ev w = (w', Inr v)"
  then have "calls w' = calls w @ [(WriterAdd, Returned)]"
    by (auto simp: emit_def split: option.splits)
  then show "\<exists>new. calls w' = calls w @ new \<and> clean new" by auto
next
  fix w w' :: "'a world" and e
  assume "emit E ev w = (w', Inl e)"
  then have "calls w' = calls w @ [(WriterAdd, Raised e)]"
    by (auto simp: emit_def split: option.splits)
  then show "\<exists>pre c. calls w' = calls w @ pre @ [(c, Raised e)] \<and> clean pre \<and>
          \<not> (c = MakeDirs \<and> e = FileExistsError)"
    by (rule raised_last) simp
qed

lemma unforgiving_save_file [intro!]: "unforgiving (save_file E path state)"
proof (rule unforgivingI)
  fix w w' :: "'a world" and v
  assume "save_file E path state w = (w', Inr v)"
  then have "calls w' = calls w @ [(TorchSave, Returned)]"
    by (auto simp: save_file_def split: option.splits)
  then show "\<exists>new. calls w' = calls w @ new \<and> clean new" by auto
next
  fix w w' :: "'a world" and e
  assume "save_file E path state w = (w', Inl e)"
  then have "calls w' = calls w @ [(TorchSave, Raised e)]"
    by (auto simp: save_file_def split: option.splits)
  then show "\<exists>pre c. calls w' = calls w @ pre @ [(c, Raised e)] \<and> clean pre \<and>
          \<not> (c = MakeDirs \<and> e = FileExistsError)"
    by (rule raised_last) simp
qed

text \<open>The handler: \<^verbatim>\<open>FileExistsError\<close> is recorded and swallowed, any other error goes on.\<close>

lemma make_dirs_eq:
  "make_dirs E path w =
     (case makedirs E w path of
        None \<Rightarrow> (w\<lparr>calls := calls w @ [(MakeDirs, Returned)]\<rparr>, Inr ())
      | Some e \<Rightarrow>
          (w\<lparr>calls := calls w @ [(MakeDirs, Raised e)]\<rparr>,
           if e = FileExistsError then Inr () else Inl e))"
  by (simp add: make_dirs_def split: option.splits)

lemma unforgiving_make_dirs [intro!]: "unforgiving (make_dirs E path)"
proof (rule unforgivingI)
  fix w w' :: "'a world" and v
  assume "make_dirs E path w = (w', Inr v)"
  then have "calls w' = calls w @ [(MakeDirs, Returned)] \<or>
      calls w' = calls w @ [(MakeDirs, Raised FileExistsError)]"
    by (auto simp: make_dirs_eq split: option.splits if_splits)
  then show "\<exists>new. calls w' = calls w @ new \<and> clean new"
    by (auto simp: clean_def)
next
  fix w w' :: "'a world" and e
  assume "make_dirs E path w = (w', Inl e)"
  then have "calls w' = calls w @ [(MakeDirs, Raised e)]" and "e \<noteq> FileExistsError"
    by (auto simp: make_dirs_eq split: option.splits if_splits)
  then show "\<exists>pre c. calls w' = calls w @ pre @ [(c, Raised e)] \<and> clean pre \<and>
          \<not> (c = MakeDirs \<and> e = FileExistsError)"
    by (intro exI [of _ "[]"] exI [of _ MakeDirs]) simp
qed

section \<open>Properties of the Evaluator\<close>

subsection \<open>Counting right predictions\<close>

lemma count_correct_card:
  assumes "length outputs = length tgts"
  shows "count_correct outputs tgts = Inr (correct_predictions (outputs, tgts))"
proof -
  let ?P = "\<lambda>(out, tgt). predicted out = tgt"
  have "length (filter ?P (zip outputs tgts))
      = card {i. i < length (zip outputs tgts) \<and> ?P (zip outputs tgts ! i)}"
    by (rule length_filter_conv_card)
  also have "{i. i < length (zip outputs tgts) \<and> ?P (zip outputs tgts ! i)}
      = {i. i < length tgts \<and> (if 1 / 2 < outputs ! i then 1 else 0) = tgts ! i}"
    using assms by (auto simp: predicted_def)
  finally show ?thesis
    using assms by (simp add: count_correct_def correct_predictions_def)
qed

lemma BCELoss_sizes: "BCELoss outputs tgts = Inr l \<Longrightarrow> length outputs = length tgts"
  by (auto simp: BCELoss_def split: if_splits)

lemma BCELoss_returns:
  "length outputs = length tgts \<Longrightarrow> \<forall>out \<in> set outputs. 0 \<le> out \<and> out \<le> 1 \<Longrightarrow>
     \<exists>l. BCELoss outputs tgts = Inr l"
  by (auto simp: BCELoss_def list_ex_iff)

subsection \<open>The loop\<close>

lemma quiet_eval_loop: "quiet (eval_loop L criterion batches acc)"
proof (induction batches arbitrary: acc)
  case Nil
  show ?case by (cases acc) auto
next
  case (Cons data rest)
  obtain m c t v where "acc = (m, c, t, v)" by (metis prod_cases4)
  with Cons show ?case by auto
qed

lemma quiet_eval_model: "quiet (eval_model L mdl batches criterion)"
  unfolding eval_model_def by (intro quiet_and_then quiet_case_prod quiet_eval_loop) auto

lemma oblivious_eval_loop: "oblivious (eval_loop L criterion batches acc)"
proof (induction batches arbitrary: acc)
  case Nil
  show ?case by (cases acc) auto
next
  case (Cons data rest)
  obtain m c t v where "acc = (m, c, t, v)" by (metis prod_cases4)
  with Cons show ?case by auto
qed

lemma oblivious_eval_model: "oblivious (eval_model L mdl batches criterion)"
  unfolding eval_model_def
  by (intro oblivious_and_then oblivious_case_prod oblivious_eval_loop) auto

lemma unforgiving_eval_loop: "unforgiving (eval_loop L criterion batches acc)"
proof (induction batches arbitrary: acc)
  case Nil
  show ?case by (cases acc) auto
next
  case (Cons data rest)
  obtain m c t v where "acc = (m, c, t, v)" by (metis prod_cases4)
  with Cons show ?case by (auto intro!: unforgiving_attempt)
qed

lemma unforgiving_eval_model: "unforgiving (eval_model L mdl batches criterion)"
  unfolding eval_model_def
  by (intro unforgiving_and_then unforgiving_case_prod unforgiving_eval_loop) auto

lemma eval_loop_run:
  assumes "eval_outputs L m batches = Inr ots"
    and "\<forall>(out, tgt) \<in> set ots. length out = length tgt \<and> (\<exists>l. criterion out tgt = Inr l)"
  shows "\<exists>w' m' losses.
           eval_loop L criterion batches (m, c, t, v) w
             = (w', Inr (m', c + (\<Sum>ot \<leftarrow> ots. correct_predictions ot),
                         t + (\<Sum>ot \<leftarrow> ots. length (snd ot)), v + sum_list losses)) \<and>
           map (\<lambda>(out, tgt). criterion out tgt) ots = map Inr losses"
  using assms
proof (induction batches arbitrary: m c t v w ots)
  case Nil
  then show ?case by simp
next
  case (Cons data rest)
  from Cons.prems(1) obtain outputs m1 ots1 where
    call: "call_model L m (inputs data) = Inr (outputs, m1)"
    and rest: "eval_outputs L m1 rest = Inr ots1"
    and ots: "ots = (outputs, targets data) # ots1"
    by (auto split: sum.splits)
  from Cons.prems(2) ots obtain l where
    len: "length outputs = length (targets data)"
    and l: "criterion outputs (targets data) = Inr l"
    and ok1: "\<forall>(out, tgt) \<in> set ots1. length out = length tgt \<and> (\<exists>l. criterion out tgt = Inr l)"
    by auto
  let ?n = "correct_predictions (outputs, targets data)"
  let ?w3 = "w\<lparr>calls := calls w @ [(Forward, Returned), (Criterion, Returned), (Compare, Returned)]\<rparr>"
  from Cons.IH [OF rest ok1, of "c + ?n" "t + length (targets data)" "v + l" ?w3]
  obtain w' m' losses where
    run: "eval_loop L criterion rest (m1, c + ?n, t + length (targets data), v + l) ?w3
       = (w', Inr (m', c + ?n + (\<Sum>ot \<leftarrow> ots1. correct_predictions ot),
                   t + length (targets data) + (\<Sum>ot \<leftarrow> ots1. length (snd ot)),
                   v + l + sum_list losses))"
    and ls: "map (\<lambda>(out, tgt). criterion out tgt) ots1 = map Inr losses"
    by blast
  have "eval_loop L criterion (data # rest) (m, c, t, v) w
      = eval_loop L criterion rest (m1, c + ?n, t + length (targets data), v + l) ?w3"
    by (simp add: and_then_def call l count_correct_card [OF len])
  with run ls l ots show ?case
    by (intro exI [of _ w'] exI [of _ m'] exI [of _ "l # losses"]) (simp add: add.assoc)
qed

text \<open>
  When a forward pass in evaluation mode leaves the model object as it is, the loop hands
  back the model object it was given.
\<close>

lemma eval_loop_keeps_model:
  assumes "\<forall>m x out m'. call_model L (set_eval L m) x = Inr (out, m') \<longrightarrow> m' = set_eval L m"
  shows "eval_loop L criterion batches (set_eval L m, c, t, v) w = (w', Inr (m', c', t', v'))
     \<Longrightarrow> m' = set_eval L m"
proof (induction batches arbitrary: c t v w)
  case Nil
  then show ?case by simp
next
  case (Cons data rest)
  from Cons.prems obtain w1 outputs m1 where
    f: "attempt Forward (call_model L (set_eval L m) (inputs data)) w = (w1, Inr (outputs, m1))"
    and k: "and_then (attempt Criterion (criterion outputs (targets data))) (\<lambda>loss.
        and_then (attempt Compare (count_correct outputs (targets data))) (\<lambda>n.
        eval_loop L criterion rest
          (m1, c + n, t + length (targets data), v + loss))) w1
        = (w', Inr (m', c', t', v'))"
    by (auto simp: and_then_Inr)
  from f have "call_model L (set_eval L m) (inputs data) = Inr (outputs, m1)"
    by (simp add: attempt_eq)
  with assms have m1: "m1 = set_eval L m" by blast
  from k obtain w2 loss w3 n where
    "eval_loop L criterion rest (m1, c + n, t + length (targets data), v + loss) w3
       = (w', Inr (m', c', t', v'))"
    by (auto simp: and_then_Inr)
  with m1 Cons.IH show ?case by blast
qed

lemma eval_model_Inr:
  assumes "eval_model L mdl batches criterion w = (w', Inr (mdl', loss, accuracy))"
  shows "\<exists>w1 correct total_n val_loss.
           eval_loop L criterion batches (set_eval L mdl, 0, 0, 0) w
             = (w1, Inr (mdl', correct, total_n, val_loss)) \<and>
           batches \<noteq> [] \<and> total_n \<noteq> 0 \<and>
           loss = val_loss / real (length batches) \<and>
           accuracy = 100 * real correct / real total_n"
  using assms
  by (auto simp: eval_model_def and_then_Inr divide_def attempt_eq split: if_splits)

subsection \<open>Accuracy and loss\<close>

text \<open>
  Claim C7. Take a non-empty list of batches on which the forward passes return, with one
  output for each of the targets of a batch, no batch empty, and a criterion that raises
  on none of them. Then \<open>eval_model\<close> returns; the accuracy is \<open>100\<close> times the number of
  samples whose output thresholded at \<open>0.5\<close> equals the target, divided by the number of
  samples, and the loss is the sum of the per-batch losses divided by the number of
  batches. \<open>train_model\<close> passes \<^verbatim>\<open>nn.BCELoss()\<close> as the criterion.
\<close>

theorem eval_model_accuracy_and_loss:
  assumes "batches \<noteq> []"
    and "eval_outputs L (set_eval L mdl) batches = Inr ots"
    and "\<forall>(out, tgt) \<in> set ots.
           length out = length tgt \<and> tgt \<noteq> [] \<and> (\<exists>l. criterion out tgt = Inr l)"
  shows "\<exists>w' mdl' loss accuracy.
           eval_model L mdl batches criterion w = (w', Inr (mdl', loss, accuracy)) \<and>
           accuracy =
             100 * real (\<Sum>(out, tgt) \<leftarrow> ots.
                           card {i. i < length tgt \<and> (if 1 / 2 < out ! i then 1 else 0) = tgt ! i})
               / real (\<Sum>(out, tgt) \<leftarrow> ots. length tgt) \<and>
           (\<exists>losses.
              map (\<lambda>(out, tgt). criterion out tgt) ots = map Inr losses \<and>
              loss = sum_list losses / real (length batches))"
proof -
  have cp: "(\<Sum>ot \<leftarrow> ots. correct_predictions ot)
      = (\<Sum>(out, tgt) \<leftarrow> ots.
           card {i. i < length tgt \<and> (if 1 / 2 < out ! i then 1 else 0) = tgt ! i})"
    by (rule arg_cong [where f = sum_list])
      (auto simp: correct_predictions_def split: prod.splits)
  have ln: "(\<Sum>ot \<leftarrow> ots. length (snd ot)) = (\<Sum>(out, tgt) \<leftarrow> ots. length tgt)"
    by (rule arg_cong [where f = sum_list]) (auto split: prod.splits)
  from assms(3)
  have ok: "\<forall>(out, tgt) \<in> set ots. length out = length tgt \<and> (\<exists>l. criterion out tgt = Inr l)"
    by auto
  from eval_loop_run [OF assms(2) ok, of 0 0 0 w] obtain w1 m' losses where
    loop: "eval_loop L criterion batches (set_eval L mdl, 0, 0, 0) w
       = (w1, Inr (m', (\<Sum>ot \<leftarrow> ots. correct_predictions ot),
                   (\<Sum>ot \<leftarrow> ots. length (snd ot)), sum_list losses))"
    and ls: "map (\<lambda>(out, tgt). criterion out tgt) ots = map Inr losses"
    by auto
  from assms(1,2) have "ots \<noteq> []" by (cases batches) (auto split: sum.splits)
  with assms(3) have pos: "(\<Sum>ot \<leftarrow> ots. length (snd ot)) \<noteq> 0"
    by (cases ots) auto
  let ?w' = "w1\<lparr>calls := calls w1 @ [(Divide, Returned), (Divide, Returned)]\<rparr>"
  have "eval_model L mdl batches criterion w
      = (?w', Inr (m', sum_list losses / real (length batches),
           100 * real (\<Sum>ot \<leftarrow> ots. correct_predictions ot)
             / real (\<Sum>ot \<leftarrow> ots. length (snd ot))))"
    using assms(1) pos by (simp add: eval_model_def and_then_def loop divide_def)
  with ls show ?thesis
    unfolding cp ln by blast
qed

lemma card_correct_filter:
  fixes out tgt :: "real list"
  assumes "length out = length tgt"
  shows "card {i. i < length tgt \<and> (if 1 / 2 < out ! i then 1 else 0) = tgt ! i}
       = length (filter (\<lambda>(v, t). (if 1 / 2 < v then 1 else 0) = t) (zip out tgt))"
proof -
  let ?P = "\<lambda>(v, t). (if 1 / 2 < v then (1::real) else 0) = t"
  have "length (filter ?P (zip out tgt))
      = card {i. i < length (zip out tgt) \<and> ?P (zip out tgt ! i)}"
    by (rule length_filter_conv_card)
  also have "{i. i < length (zip out tgt) \<and> ?P (zip out tgt ! i)}
      = {i. i < length tgt \<and> (if 1 / 2 < out ! i then 1 else 0) = tgt ! i}"
    using assms by auto
  finally show ?thesis by simp
qed

theorem eval_model_accuracy_and_loss_witness:
  "\<exists>w' mdl' loss.
     eval_model id_learner model0 [batch5, batch3] BCELoss world0 = (w', Inr (mdl', loss, 75)) \<and>
     (\<exists>l5 l3. BCELoss (inputs batch5) (targets batch5) = Inr l5 \<and>
              BCELoss (inputs batch3) (targets batch3) = Inr l3 \<and> loss = (l5 + l3) / 2)"
proof -
  let ?ots = "[(inputs batch5, targets batch5), (inputs batch3, targets batch3)]"
  have ne: "[batch5, batch3] \<noteq> []" by simp
  have outs: "eval_outputs id_learner (set_eval id_learner model0) [batch5, batch3] = Inr ?ots"
    by (simp add: id_learner_def pure_learner_def)
  have ok: "\<forall>(out, tgt) \<in> set ?ots.
      length out = length tgt \<and> tgt \<noteq> [] \<and> (\<exists>l. BCELoss out tgt = Inr l)"
    by (auto simp: batch5_def batch3_def intro!: BCELoss_returns)
  from eval_model_accuracy_and_loss [OF ne outs ok, of world0]
  obtain w' mdl' loss accuracy losses where
    run: "eval_model id_learner model0 [batch5, batch3] BCELoss world0
       = (w', Inr (mdl', loss, accuracy))"
    and acc: "accuracy =
        100 * real (\<Sum>(out, tgt) \<leftarrow> ?ots.
                      card {i. i < length tgt \<and> (if 1 / 2 < out ! i then 1 else 0) = tgt ! i})
          / real (\<Sum>(out, tgt) \<leftarrow> ?ots. length tgt)"
    and ls: "map (\<lambda>(out, tgt). BCELoss out tgt) ?ots = map Inr losses"
    and loss: "loss = sum_list losses / real (length [batch5, batch3])"
    by blast
  have c5: "card {i. i < length (targets batch5) \<and>
              (if 1 / 2 < inputs batch5 ! i then 1 else 0) = targets batch5 ! i} = 4"
    by (subst card_correct_filter) (simp_all add: batch5_def)
  have c3: "card {i. i < length (targets batch3) \<and>
              (if 1 / 2 < inputs batch3 ! i then 1 else 0) = targets batch3 ! i} = 2"
    by (subst card_correct_filter) (simp_all add: batch3_def)
  from acc have "accuracy = 100 * real (4 + (2 + 0) :: nat)
      / real (length (targets batch5) + (length (targets batch3) + 0))"
    by (simp only: list.map sum_list.Cons sum_list.Nil prod.case c5 c3)
  then have a75: "accuracy = 75" by (simp add: batch5_def batch3_def)
  from ls obtain l5 l3 where "losses = [l5, l3]"
    and "BCELoss (inputs batch5) (targets batch5) = Inr l5"
    and "BCELoss (inputs batch3) (targets batch3) = Inr l3"
    by (cases losses; cases "tl losses") auto
  with loss have "\<exists>l5 l3. BCELoss (inputs batch5) (targets batch5) = Inr l5 \<and>
              BCELoss (inputs batch3) (targets batch3) = Inr l3 \<and> loss = (l5 + l3) / 2"
    by simp
  with run a75 show ?thesis by blast
qed

subsection \<open>Running the Evaluator twice\<close>

lemma eval_model_set_eval:
  "set_eval L (set_eval L mdl) = set_eval L mdl \<Longrightarrow>
     eval_model L (set_eval L mdl) batches criterion = eval_model L mdl batches criterion"
  by (simp add: eval_model_def)

text \<open>
  A model without state meets the three conditions of the theorem below.
\<close>

lemma pure_learner_eval:
  "\<forall>m x out m'. call_model (pure_learner f step rows) (set_eval (pure_learner f step rows) m) x
       = Inr (out, m') \<longrightarrow> m' = set_eval (pure_learner f step rows) m"
  "set_eval (pure_learner f step rows) (set_eval (pure_learner f step rows) mdl)
     = set_eval (pure_learner f step rows) mdl"
  "state_dict (pure_learner f step rows) (set_eval (pure_learner f step rows) mdl)
     = state_dict (pure_learner f step rows) mdl"
  by (auto simp: pure_learner_def)

lemmas eval_defs = eval_model_def id_learner_def pure_learner_def model0_def batch5_def
  batch3_def world0_def and_then_def returns_def divide_def count_correct_def predicted_def BCELoss_def

lemma ex_quotient: "c \<noteq> 0 \<Longrightarrow> \<exists>l::real. a = l * c"
  by (rule exI [of _ "a / c"]) simp

lemma id_learner_simps:
  "set_eval id_learner m = m\<lparr>training := False\<rparr>"
  "set_train id_learner m = m\<lparr>training := True\<rparr>"
  "state_dict id_learner m = params m"
  "call_model id_learner m x = Inr (x, m)"
  by (simp_all add: id_learner_def pure_learner_def)

lemma eval_batch5:
  "\<exists>w1 loss. eval_model id_learner model0 [batch5] BCELoss world0
     = (w1, Inr (model0\<lparr>training := False\<rparr>, loss, 80))"
  by (simp add: eval_defs ex_quotient)

text \<open>
  Claim C6, as the code has it. Take a model whose forward pass in evaluation mode leaves
  the model object as it is, for which \<^verbatim>\<open>model.eval()\<close> a second time changes nothing, and
  whose parameters \<^verbatim>\<open>model.eval()\<close> does not touch; the batches are the same list on every
  pass and the criterion is a function of outputs and targets. Then a run of \<open>eval_model\<close>
  sends nothing to the metrics sink and writes no file, whether it returns or raises; a
  second run on the model object that the first one leaves, from any world, ends as the
  first did, with the same loss and accuracy or the same exception; and a run that returns
  leaves the parameters as they were and the model object in evaluation mode, which is
  its one effect beyond the two scalars.
\<close>

theorem eval_model_repeatable:
  assumes "\<forall>m x out m'. call_model L (set_eval L m) x = Inr (out, m') \<longrightarrow> m' = set_eval L m"
    and "set_eval L (set_eval L mdl) = set_eval L mdl"
    and "state_dict L (set_eval L mdl) = state_dict L mdl"
    and "eval_model L mdl batches criterion w = (w1, r)"
  shows "events w1 = events w \<and> saved w1 = saved w \<and>
         (\<forall>w2. snd (eval_model L (set_eval L mdl) batches criterion w2) = r) \<and>
         (\<forall>mdl1 loss accuracy.
            r = Inr (mdl1, loss, accuracy) \<longrightarrow>
            mdl1 = set_eval L mdl \<and> state_dict L mdl1 = state_dict L mdl \<and>
            (\<exists>w2. eval_model L mdl1 batches criterion w1 = (w2, Inr (mdl1, loss, accuracy)) \<and>
                  events w2 = events w \<and> saved w2 = saved w))"
proof (intro conjI allI impI)
  from quietD [OF quiet_eval_model assms(4)]
  show q1: "events w1 = events w" and q2: "saved w1 = saved w" by simp_all
  have again: "snd (eval_model L (set_eval L mdl) batches criterion w2) = r" for w2
  proof -
    have "snd (eval_model L mdl batches criterion w2) = snd (eval_model L mdl batches criterion w)"
      using oblivious_eval_model [of L mdl batches criterion] by (simp add: oblivious_def)
    with assms(4) show ?thesis by (simp add: eval_model_set_eval [OF assms(2)])
  qed
  then show "snd (eval_model L (set_eval L mdl) batches criterion w2) = r" for w2 .
  fix mdl1 loss accuracy
  assume r: "r = Inr (mdl1, loss, accuracy)"
  from eval_model_Inr [OF assms(4) [unfolded r]] obtain w' correct total_n val_loss where
    "eval_loop L criterion batches (set_eval L mdl, 0, 0, 0) w
       = (w', Inr (mdl1, correct, total_n, val_loss))"
    by blast
  from eval_loop_keeps_model [OF assms(1) this]
  show m1: "mdl1 = set_eval L mdl" .
  with assms(3) show "state_dict L mdl1 = state_dict L mdl" by simp
  obtain w2 where run2: "eval_model L mdl1 batches criterion w1
      = (w2, snd (eval_model L mdl1 batches criterion w1))"
    by (metis prod.collapse)
  from again [of w1] m1 r
  have "snd (eval_model L mdl1 batches criterion w1) = Inr (mdl1, loss, accuracy)" by simp
  with run2 have run2': "eval_model L mdl1 batches criterion w1 = (w2, Inr (mdl1, loss, accuracy))"
    by simp
  from quietD [OF quiet_eval_model run2'] q1 q2
  have "events w2 = events w \<and> saved w2 = saved w" by simp
  with run2'
  show "\<exists>w2. eval_model L mdl1 batches criterion w1 = (w2, Inr (mdl1, loss, accuracy)) \<and>
             events w2 = events w \<and> saved w2 = saved w"
    by blast
qed

theorem eval_model_repeatable_witness:
  "\<exists>w1 loss.
     eval_model id_learner model0 [batch5] BCELoss world0
       = (w1, Inr (model0\<lparr>training := False\<rparr>, loss, 80)) \<and>
     events w1 = [] \<and> saved w1 = [] \<and>
     state_dict id_learner (model0\<lparr>training := False\<rparr>) = state_dict id_learner model0 \<and>
     (\<exists>w2. eval_model id_learner (model0\<lparr>training := False\<rparr>) [batch5] BCELoss w1
              = (w2, Inr (model0\<lparr>training := False\<rparr>, loss, 80)) \<and>
           events w2 = [] \<and> saved w2 = [])"
proof -
  from eval_batch5 obtain w1 loss where
    run: "eval_model id_learner model0 [batch5] BCELoss world0
       = (w1, Inr (model0\<lparr>training := False\<rparr>, loss, 80))"
    by blast
  have a: "\<forall>m x out m'. call_model id_learner (set_eval id_learner m) x = Inr (out, m')
      \<longrightarrow> m' = set_eval id_learner m"
    unfolding id_learner_def by (rule pure_learner_eval)
  have b: "set_eval id_learner (set_eval id_learner model0) = set_eval id_learner model0"
    unfolding id_learner_def by (rule pure_learner_eval)
  have c: "state_dict id_learner (set_eval id_learner model0) = state_dict id_learner model0"
    unfolding id_learner_def by (rule pure_learner_eval)
  have w0: "events world0 = []" "saved world0 = []"
    by (simp_all add: world0_def)
  note inst = eval_model_repeatable [OF a b c run]
  from inst have q: "events w1 = []" "saved w1 = []"
    by (simp_all add: w0)
  from inst [THEN conjunct2, THEN conjunct2, THEN conjunct2, THEN spec, THEN spec, THEN spec,
            of "model0\<lparr>training := False\<rparr>" loss 80]
  have rest: "state_dict id_learner (model0\<lparr>training := False\<rparr>) = state_dict id_learner model0 \<and>
      (\<exists>w2. eval_model id_learner (model0\<lparr>training := False\<rparr>) [batch5] BCELoss w1
               = (w2, Inr (model0\<lparr>training := False\<rparr>, loss, 80)) \<and>
            events w2 = [] \<and> saved w2 = [])"
    by (simp add: w0 id_learner_simps)
  from run q rest show ?thesis by blast
qed

text \<open>
  The claim as the specification words it fails on the mode flag: \<open>eval_model\<close> called on
  a model in training mode leaves it in evaluation mode, an effect beyond the two scalars
  that the caller can observe.
\<close>

theorem eval_model_side_effect_counterexample:
  "training model0 \<and>
   (\<exists>w1 mdl1 loss accuracy.
      eval_model id_learner model0 [batch5] BCELoss world0 = (w1, Inr (mdl1, loss, accuracy)) \<and>
      \<not> training mdl1 \<and> mdl1 \<noteq> model0)"
  by (simp add: eval_defs ex_quotient)

text \<open>
  The condition on the forward pass cannot be dropped: on the model that counts its
  forward passes, two runs in succession on the same batches return different accuracies.
\<close>

lemma eval_model_stateful_forward_differs:
  "\<exists>w1 mdl1 loss1 w2 mdl2 loss2.
     eval_model counting_learner 0 [batch5] BCELoss world0 = (w1, Inr (mdl1, loss1, 80)) \<and>
     eval_model counting_learner mdl1 [batch5] BCELoss w1 = (w2, Inr (mdl2, loss2, 0))"
  by (simp add: eval_defs counting_learner_def ex_quotient)

section \<open>Properties of \<^verbatim>\<open>int(epochs * 0.7)\<close>\<close>

lemma bitlen_0: "bitlen 0 = 0"
  by (simp add: bitlen.simps)

lemma bitlen_pos: "0 < n \<Longrightarrow> bitlen n = Suc (bitlen (n div 2))"
  by (subst bitlen.simps) simp

lemma bitlen_upper: "n < 2 ^ bitlen n"
proof (induction n rule: bitlen.induct)
  case (1 n)
  show ?case
  proof (cases "n = 0")
    case True
    then show ?thesis by (simp add: bitlen_0)
  next
    case False
    with 1 have "n div 2 < 2 ^ bitlen (n div 2)" by simp
    then have "n < 2 * 2 ^ bitlen (n div 2)" by linarith
    with False show ?thesis by (simp add: bitlen_pos)
  qed
qed

lemma bitlen_lower: "0 < n \<Longrightarrow> 2 ^ (bitlen n - 1) \<le> n"
proof (induction n rule: bitlen.induct)
  case (1 n)
  show ?case
  proof (cases "n div 2 = 0")
    case True
    with 1(2) have "n = 1" by linarith
    then show ?thesis by (simp add: bitlen_pos bitlen_0)
  next
    case False
    then have pos: "0 < n div 2" by simp
    with 1 have "2 ^ (bitlen (n div 2) - 1) \<le> n div 2" by simp
    then have "2 * 2 ^ (bitlen (n div 2) - 1) \<le> n" by linarith
    moreover have "bitlen (n div 2) \<noteq> 0" using pos by (simp add: bitlen_pos)
    then have "2 * (2::nat) ^ (bitlen (n div 2) - 1) = 2 ^ bitlen (n div 2)"
      by (cases "bitlen (n div 2)") simp_all
    ultimately show ?thesis using 1(2) by (simp add: bitlen_pos)
  qed
qed

lemma bitlen_le: "n < 2 ^ k \<Longrightarrow> bitlen n \<le> k"
proof (rule ccontr)
  assume lt: "n < 2 ^ k" and "\<not> bitlen n \<le> k"
  then have k: "k \<le> bitlen n - 1" by simp
  have "0 < n" using \<open>\<not> bitlen n \<le> k\<close> by (cases "n = 0") (simp_all add: bitlen_0)
  from bitlen_lower [OF this] have "2 ^ (bitlen n - 1) \<le> n" .
  moreover have "(2::nat) ^ k \<le> 2 ^ (bitlen n - 1)" using k by (simp add: power_increasing)
  ultimately show False using lt by linarith
qed

text \<open>Rounding to 53 bits moves a number by at most half a unit in the last place.\<close>

lemma round_to_double_exact: "bitlen m \<le> 53 \<Longrightarrow> round_to_double m = m"
  by (simp add: round_to_double_def)

lemma round_to_double_near:
  assumes "53 < bitlen m"
  shows "2 * round_to_double m \<le> 2 * m + 2 ^ (bitlen m - 53) \<and>
         2 * m \<le> 2 * round_to_double m + 2 ^ (bitlen m - 53)"
proof -
  define s where "s = bitlen m - 53"
  define q where "q = m div 2 ^ s"
  define r where "r = m mod 2 ^ s"
  have m: "m = q * 2 ^ s + r" unfolding q_def r_def by (rule div_mult_mod_eq [symmetric])
  have r: "r < 2 ^ s" by (simp add: r_def)
  have rd: "round_to_double m = (if 2 ^ s < 2 * r \<or> (2 * r = 2 ^ s \<and> odd q) then q + 1 else q) * 2 ^ s"
    using assms by (simp add: round_to_double_def Let_def s_def q_def r_def)
  show ?thesis
  proof (cases "2 ^ s < 2 * r \<or> (2 * r = 2 ^ s \<and> odd q)")
    case True
    then have "round_to_double m = q * 2 ^ s + 2 ^ s" using rd by (simp add: algebra_simps)
    moreover from True have "2 ^ s \<le> 2 * r" by auto
    ultimately show ?thesis using m r unfolding s_def [symmetric] by linarith
  next
    case False
    then have "round_to_double m = q * 2 ^ s" using rd by simp
    moreover from False have "2 * r \<le> 2 ^ s" by auto
    ultimately show ?thesis using m r unfolding s_def [symmetric] by linarith
  qed
qed


lemma round_to_double_ge_pow2:
  assumes "2 ^ j \<le> m"
  shows "2 ^ j \<le> round_to_double m"
proof (cases "bitlen m \<le> 53")
  case True
  with assms show ?thesis by (simp add: round_to_double_exact)
next
  case False
  define s where "s = bitlen m - 53"
  define q where "q = m div 2 ^ s"
  have b: "bitlen m = 53 + s" using False by (simp add: s_def)
  have "0 < m" using assms by (cases "m = 0") simp_all
  from bitlen_lower [OF this] have low: "2 ^ (52 + s) \<le> m" by (simp add: b)
  have "(2::nat) ^ 52 * 2 ^ s \<le> m" using low by (simp add: power_add)
  then have q52: "2 ^ 52 \<le> q" unfolding q_def
    by (metis less_eq_div_iff_mult_less_eq zero_less_numeral zero_less_power)
  have "m < 2 ^ (53 + s)" using bitlen_upper [of m] by (simp add: b)
  with assms have "(2::nat) ^ j < 2 ^ (53 + s)" by linarith
  then have "j < 53 + s" by (simp add: power_strict_increasing_iff)
  then have "(2::nat) ^ j \<le> 2 ^ (52 + s)" by (simp add: power_increasing)
  also have "\<dots> = 2 ^ 52 * 2 ^ s" by (simp add: power_add)
  also have "\<dots> \<le> q * 2 ^ s" using q52 by simp
  also have "\<dots> \<le> round_to_double m"
    using False by (simp add: round_to_double_def Let_def s_def q_def)
  finally show ?thesis .
qed

lemma int_epochs_times_0_7_pos:
  assumes "2 \<le> n"
  shows "1 \<le> int_epochs_times_0_7 n"
proof -
  from assms have "2 ^ 1 \<le> n" by simp
  then have "2 ^ 1 \<le> round_to_double n" by (rule round_to_double_ge_pow2)
  then have "2 * 6305039478318694 \<le> round_to_double n * 6305039478318694" by simp
  then have "2 ^ 53 \<le> round_to_double n * 6305039478318694" by simp
  then have "2 ^ 53 \<le> round_to_double (round_to_double n * 6305039478318694)"
    by (rule round_to_double_ge_pow2)
  then show ?thesis
    by (simp add: int_epochs_times_0_7_def less_eq_div_iff_mult_less_eq)
qed

text \<open>Below \<open>2 ^ 49\<close> epochs the result is within one of seven tenths of the epochs.\<close>

lemma int_epochs_times_0_7_bounds:
  assumes "n < 2 ^ 49"
  shows "10 * int_epochs_times_0_7 n \<le> 7 * n \<and> 7 * n \<le> 10 * int_epochs_times_0_7 n + 10"
proof -
  define x where "x = n * 6305039478318694"
  define r where "r = round_to_double x"
  define t where "t = int_epochs_times_0_7 n"
  have "n < 2 ^ 53" using assms by simp
  then have "bitlen n \<le> 53" by (rule bitlen_le)
  then have t: "t = r div 2 ^ 53"
    by (simp add: t_def r_def x_def int_epochs_times_0_7_def round_to_double_exact)
  have x10: "10 * x + 4 * n = 7 * n * 2 ^ 53"
    by (simp add: x_def)
  have near: "2 * r \<le> 2 * x + 2 ^ 49 \<and> 2 * x \<le> 2 * r + 2 ^ 49"
  proof (cases "bitlen x \<le> 53")
    case True
    then show ?thesis by (simp add: r_def round_to_double_exact)
  next
    case False
    then have big: "53 < bitlen x" by simp
    have "x < 2 ^ 49 * 2 ^ 53"
      using assms unfolding x_def by (simp add: mult_strict_mono)
    then have "x < 2 ^ 102" by simp
    then have "bitlen x \<le> 102" by (rule bitlen_le)
    then have "bitlen x - 53 \<le> 49" by simp
    then have "(2::nat) ^ (bitlen x - 53) \<le> 2 ^ 49"
      by (rule power_increasing) simp
    with round_to_double_near [OF big] show ?thesis
      unfolding r_def by linarith
  qed
  have t': "t = r div 9007199254740992" using t by simp
  define a where "a = r mod 9007199254740992"
  have dm: "r = t * 9007199254740992 + a"
    unfolding t' a_def by (rule div_mult_mod_eq [symmetric])
  have "a < 9007199254740992" by (simp add: a_def)
  with dm have lo: "t * 9007199254740992 \<le> r" and hi: "r < (t + 1) * 9007199254740992"
    by simp_all
  have n49: "n < 562949953421312" using assms by simp
  have "10 * (t * 9007199254740992) \<le> 7 * n * 9007199254740992 + 9007199254740991"
    using lo near x10 n49 by simp
  then have up: "10 * t \<le> 7 * n" by linarith
  have "7 * n * 9007199254740992 < 10 * ((t + 1) * 9007199254740992) + 9007199254740992"
    using hi near x10 n49 by simp
  then have "(7 * n) * 9007199254740992 < (10 * t + 11) * 9007199254740992"
    by (simp add: algebra_simps)
  then have "7 * n < 10 * t + 11"
    by (simp only: mult_less_cancel2)
  then have down: "7 * n \<le> 10 * t + 10" by simp
  from up down show ?thesis unfolding t_def by simp
qed

section \<open>Properties of the Trainer\<close>

subsection \<open>Events and files of the pieces\<close>

lemma emit_cases:
  assumes "emit E ev w = (w', r)"
  shows "saved w' = saved w \<and>
         ((\<exists>e. r = Inl e) \<and> events w' = events w \<or> r = Inr () \<and> events w' = events w @ [ev])"
  using assms by (auto simp: emit_def attempt_eq split: option.splits)

lemma emit_Inr:
  "emit E ev w = (w', Inr u) \<Longrightarrow> events w' = events w @ [ev] \<and> saved w' = saved w"
  by (auto simp: emit_def attempt_eq split: option.splits)

lemma save_file_cases:
  assumes "save_file E path state w = (w', r)"
  shows "events w' = events w \<and>
         ((\<exists>e. r = Inl e) \<and> saved w' = saved w \<or>
          r = Inr () \<and> saved w' = saved w @ [(path, state)])"
  using assms by (auto simp: save_file_def attempt_eq split: option.splits)

lemma save_file_Inr:
  "save_file E path state w = (w', Inr u) \<Longrightarrow>
     events w' = events w \<and> saved w' = saved w @ [(path, state)]"
  by (auto simp: save_file_def attempt_eq split: option.splits)

lemma quiet_train_batches: "quiet (train_batches L rate batches acc)"
proof (induction batches arbitrary: acc)
  case Nil
  show ?case by (cases acc) auto
next
  case (Cons data rest)
  obtain opt m rl c where "acc = (opt, m, rl, c)" by (metis prod_cases4)
  with Cons show ?case by auto
qed

lemma quiet_add_subplots: "quiet (add_subplots nrows ncols idxs)"
  by (induction idxs) auto

lemma quiet_plot_classes_preds: "quiet (plot_classes_preds L m sample)"
  by (auto simp: plot_classes_preds_def Let_def intro: quiet_add_subplots)

lemma quiet_make_dirs: "quiet (make_dirs E path)"
  by (rule quietI) (auto simp: make_dirs_eq split: option.splits)

lemma quiet_train_setup: "quiet (train_setup L E mdl args)"
  by (auto simp: train_setup_def intro: quiet_make_dirs)

lemma unforgiving_train_batches: "unforgiving (train_batches L rate batches acc)"
proof (induction batches arbitrary: acc)
  case Nil
  show ?case by (cases acc) auto
next
  case (Cons data rest)
  obtain opt m rl c where "acc = (opt, m, rl, c)" by (metis prod_cases4)
  with Cons show ?case by (auto intro!: unforgiving_attempt)
qed

lemma unforgiving_add_subplots: "unforgiving (add_subplots nrows ncols idxs)"
  by (induction idxs) (auto intro!: unforgiving_attempt)

lemma unforgiving_plot_classes_preds: "unforgiving (plot_classes_preds L m sample)"
  by (auto simp: plot_classes_preds_def Let_def
        intro!: unforgiving_attempt unforgiving_add_subplots)

lemma unforgiving_train_epoch: "unforgiving (train_epoch L E args sample epoch st)"
  by (auto simp: train_epoch_def
        intro!: unforgiving_train_batches unforgiving_eval_model unforgiving_plot_classes_preds
        split: prod.splits)

lemma unforgiving_train_loop: "unforgiving (train_loop L E args sample es st)"
  by (induction es arbitrary: st) (auto intro!: unforgiving_train_epoch)

lemma unforgiving_train_setup: "unforgiving (train_setup L E mdl args)"
  by (auto simp: train_setup_def intro!: unforgiving_attempt)

lemma unforgiving_train_model: "unforgiving (train_model L E mdl args)"
  by (auto simp: train_model_def intro!: unforgiving_train_setup unforgiving_train_loop)

subsection \<open>What a piece can send to the metrics sink\<close>

lemma emits_onlyI:
  "(\<And>w w' r. m w = (w', r) \<Longrightarrow> \<exists>new. events w' = events w @ new \<and> set new \<subseteq> S)
     \<Longrightarrow> emits_only S m"
  unfolding emits_only_def by (metis prod.collapse)

lemma emits_onlyD:
  "emits_only S m \<Longrightarrow> m w = (w', r) \<Longrightarrow> \<exists>new. events w' = events w @ new \<and> set new \<subseteq> S"
  unfolding emits_only_def by (metis fst_conv)

lemma emits_only_quiet: "quiet m \<Longrightarrow> emits_only S m"
proof (rule emits_onlyI)
  fix w w' r
  assume "quiet m" and "m w = (w', r)"
  then have "events w' = events w @ []" by (auto dest: quietD)
  then show "\<exists>new. events w' = events w @ new \<and> set new \<subseteq> S" by auto
qed

lemma emits_only_returns: "emits_only S (returns v)"
  by (rule emits_only_quiet) auto

lemma emits_only_emit: "ev \<in> S \<Longrightarrow> emits_only S (emit E ev)"
proof (rule emits_onlyI)
  fix w w' r
  assume "ev \<in> S" and "emit E ev w = (w', r)"
  with emit_cases [of E ev w w' r]
  have "events w' = events w @ [] \<or> events w' = events w @ [ev]" by auto
  with \<open>ev \<in> S\<close> show "\<exists>new. events w' = events w @ new \<and> set new \<subseteq> S"
    by (metis empty_set empty_subsetI insert_subset list.simps(15))
qed

lemma emits_only_save_file: "emits_only S (save_file E path state)"
proof (rule emits_onlyI)
  fix w w' r
  assume "save_file E path state w = (w', r)"
  from save_file_cases [OF this] have "events w' = events w @ []" by simp
  then show "\<exists>new. events w' = events w @ new \<and> set new \<subseteq> S" by auto
qed

lemma emits_only_and_then:
  assumes "emits_only S m" and "\<And>w w1 v. m w = (w1, Inr v) \<Longrightarrow> emits_only S (f v)"
  shows "emits_only S (and_then m f)"
proof (rule emits_onlyI)
  fix w w' r
  assume run: "and_then m f w = (w', r)"
  show "\<exists>new. events w' = events w @ new \<and> set new \<subseteq> S"
  proof (cases rule: run_cases [of m w])
    case (Returns w1 v)
    with run have f: "f v w1 = (w', r)" by (simp add: and_then_step)
    from emits_onlyD [OF assms(1) Returns] obtain new1 where
      n1: "events w1 = events w @ new1" "set new1 \<subseteq> S" by blast
    from emits_onlyD [OF assms(2) [OF Returns] f] obtain new2 where
      n2: "events w' = events w1 @ new2" "set new2 \<subseteq> S" by blast
    from n1 n2 have "events w' = events w @ (new1 @ new2) \<and> set (new1 @ new2) \<subseteq> S" by simp
    then show ?thesis by blast
  next
    case (Raises w1 e)
    with run have "w' = w1" by (simp add: and_then_raise)
    with emits_onlyD [OF assms(1) Raises] show ?thesis by simp
  qed
qed

lemma emits_only_divide: "emits_only S (divide a n)"
  by (rule emits_only_quiet) (rule quiet_divide)

lemma emits_only_eval_model: "emits_only S (eval_model L mdl batches criterion)"
  by (rule emits_only_quiet) (rule quiet_eval_model)

lemma emits_only_plot_classes_preds: "emits_only S (plot_classes_preds L m sample)"
  by (rule emits_only_quiet) (rule quiet_plot_classes_preds)

subsection \<open>One epoch\<close>

lemma train_batches_Inr:
  "train_batches L rate batches (opt, m, rl, c) w = (w', Inr (opt', m', rl', c')) \<Longrightarrow>
     \<exists>ots. epoch_outputs L rate batches opt m = Inr ots \<and>
           c' = c + real (\<Sum>ot \<leftarrow> ots. correct_predictions ot)"
proof (induction batches arbitrary: opt m rl c w)
  case Nil
  then show ?case by simp
next
  case (Cons data rest)
  from Cons.prems obtain outputs m1 loss opt1 m2 n w4 where
    f: "call_model L m (inputs data) = Inr (outputs, m1)"
    and l: "BCELoss outputs (targets data) = Inr loss"
    and b: "backward_step L rate opt m1 data = Inr (opt1, m2)"
    and k: "count_correct outputs (targets data) = Inr n"
    and r: "train_batches L rate rest (opt1, m2, rl + loss, c + real n) w4
              = (w', Inr (opt', m', rl', c'))"
    by (auto simp: and_then_Inr attempt_eq_Inr)
  from count_correct_card [OF BCELoss_sizes [OF l]] k
  have n: "n = correct_predictions (outputs, targets data)" by simp
  from Cons.IH [OF r] obtain ots where
    "epoch_outputs L rate rest opt1 m2 = Inr ots"
    and "c' = c + real n + real (\<Sum>ot \<leftarrow> ots. correct_predictions ot)"
    by blast
  with f b n show ?case by simp
qed

text \<open>
  Whatever becomes of an epoch, a scalar \<^verbatim>\<open>accuracy/Train\<close> that it has sent carries the
  step \<open>epoch + 1\<close> and the number of right predictions of the epoch's training batches
  divided by the number of batches.
\<close>

lemma train_epoch_emits:
  "emits_only
     {ev. \<forall>v s. ev = AddScalar ''accuracy/Train'' v s \<longrightarrow>
        s = epoch + 1 \<and>
        (\<exists>ots. epoch_outputs L (lr st) (train_dataloader args) (opt_state st)
                 (set_train L (model st)) = Inr ots \<and>
               v = real (\<Sum>ot \<leftarrow> ots. correct_predictions ot)
                     / real (length (train_dataloader args)))}
     (train_epoch L E args sample epoch st)"
  unfolding train_epoch_def
proof (rule emits_only_and_then)
  show "emits_only S
     (train_batches L (lr st) (train_dataloader args)
        (opt_state st, set_train L (model st), 0, 0))" for S
    by (rule emits_only_quiet) (rule quiet_train_batches)
next
  fix w w1 v
  assume tb: "train_batches L (lr st) (train_dataloader args)
     (opt_state st, set_train L (model st), 0, 0) w = (w1, Inr v)"
  obtain opt m rl c where v: "v = (opt, m, rl, c)" by (metis prod_cases4)
  from train_batches_Inr [OF tb [unfolded v]] obtain ots where
    ots: "epoch_outputs L (lr st) (train_dataloader args) (opt_state st)
            (set_train L (model st)) = Inr ots"
    and c: "c = real (\<Sum>ot \<leftarrow> ots. correct_predictions ot)"
    by auto
  show "emits_only
     {ev. \<forall>v s. ev = AddScalar ''accuracy/Train'' v s \<longrightarrow>
        s = epoch + 1 \<and>
        (\<exists>ots. epoch_outputs L (lr st) (train_dataloader args) (opt_state st)
                 (set_train L (model st)) = Inr ots \<and>
               v = real (\<Sum>ot \<leftarrow> ots. correct_predictions ot)
                     / real (length (train_dataloader args)))}
     (case v of
        (opt, m, running_loss, correct) \<Rightarrow>
          and_then (divide running_loss (length (train_dataloader args))) (\<lambda>average_loss.
          and_then (eval_model L m (test_dataloader args) BCELoss)
            (\<lambda>(m, eval_loss, eval_accuracy).
          and_then (emit E (AddScalars ''loss''
                      [(''Train'', average_loss), (''Eval'', eval_loss)] (epoch + 1))) (\<lambda>_.
          and_then (divide correct (length (train_dataloader args))) (\<lambda>train_accuracy.
          and_then (emit E (AddScalar ''accuracy/Train'' train_accuracy (epoch + 1))) (\<lambda>_.
          and_then (emit E (AddScalar ''accuracy/Eval'' eval_accuracy (epoch + 1))) (\<lambda>_.
          and_then (plot_classes_preds L m sample) (\<lambda>m.
          and_then (emit E (AddFigure ''predictions vs. actuals'' (epoch + 1))) (\<lambda>_.
          and_then (if \<not> nosave args \<and> epoch mod 3 = 2
                    then save_file E (path_join (save_dir args) (str_nat epoch @ ''.pt''))
                           (state_dict L m)
                    else returns ()) (\<lambda>_.
          (case scheduler_step (scheduler st) (lr st) of
             (sched, rate) \<Rightarrow>
               returns \<lparr>model = m, opt_state = opt, lr = rate, scheduler = sched,
                        postfix = postfix st @ [(epoch, average_loss, rate)]\<rparr>)))))))))))"
    unfolding v prod.case
    by (auto simp: divide_eq_Inr ots c
        intro!: emits_only_divide emits_only_eval_model emits_only_plot_classes_preds
          emits_only_emit emits_only_save_file emits_only_returns emits_only_and_then
        split: prod.splits)
qed

text \<open>What a returning epoch leaves behind.\<close>

lemma train_epoch_saved:
  assumes "train_epoch L E args sample epoch st w = (w', Inr st')"
  shows "saved w' = saved w @
           (if \<not> nosave args \<and> epoch mod 3 = 2
            then [(path_join (save_dir args) (str_nat epoch @ ''.pt''), state_dict L (model st'))]
            else [])"
proof -
  obtain sched rate where "scheduler_step (scheduler st) (lr st) = (sched, rate)"
    by (cases "scheduler_step (scheduler st) (lr st)")
  with assms show ?thesis
    unfolding train_epoch_def
    by (auto simp: and_then_Inr divide_eq_Inr split: prod.splits if_splits
          dest!: quietD [OF quiet_train_batches] quietD [OF quiet_eval_model]
            quietD [OF quiet_plot_classes_preds] emit_Inr save_file_Inr)
qed

lemma train_epoch_scheduler:
  assumes "train_epoch L E args sample epoch st w = (w', Inr st')"
  shows "(scheduler st', lr st') = scheduler_step (scheduler st) (lr st)"
proof -
  obtain sched rate where "scheduler_step (scheduler st) (lr st) = (sched, rate)"
    by (cases "scheduler_step (scheduler st) (lr st)")
  with assms show ?thesis
    unfolding train_epoch_def by (auto simp: and_then_Inr split: prod.splits)
qed

lemma train_epoch_emitted:
  assumes "train_epoch L E args sample epoch st w = (w', Inr st')"
  shows "\<exists>ev_loss v ev_eval ev_fig.
           events w' = events w @ [ev_loss, AddScalar ''accuracy/Train'' v (epoch + 1),
                                    ev_eval, ev_fig]"
proof -
  obtain sched rate where "scheduler_step (scheduler st) (lr st) = (sched, rate)"
    by (cases "scheduler_step (scheduler st) (lr st)")
  with assms show ?thesis
    unfolding train_epoch_def
    by (auto simp: and_then_Inr divide_eq_Inr split: prod.splits if_splits
          dest!: quietD [OF quiet_train_batches] quietD [OF quiet_eval_model]
            quietD [OF quiet_plot_classes_preds] emit_Inr save_file_Inr)
qed

subsection \<open>The epoch loop\<close>

lemma train_loop_Cons_Inr:
  "train_loop L E args sample (epoch # rest) st w = (w', Inr st') \<longleftrightarrow>
     (\<exists>w1 st1. train_epoch L E args sample epoch st w = (w1, Inr st1) \<and>
               train_loop L E args sample rest st1 w1 = (w', Inr st'))"
  by (simp add: and_then_Inr)

lemma train_loop_append_Inr:
  "train_loop L E args sample (xs @ ys) st w = (w', Inr st') \<longleftrightarrow>
     (\<exists>w1 st1. train_loop L E args sample xs st w = (w1, Inr st1) \<and>
               train_loop L E args sample ys st1 w1 = (w', Inr st'))"
proof (induction xs arbitrary: st w)
  case Nil
  show ?case by simp
next
  case (Cons x xs)
  show ?case
    unfolding append_Cons train_loop_Cons_Inr Cons.IH by blast
qed

lemma train_loop_saved:
  "train_loop L E args sample es st w = (w', Inr st') \<Longrightarrow>
     map fst (saved w') = map fst (saved w) @
       map (\<lambda>e. path_join (save_dir args) (str_nat e @ ''.pt''))
         (filter (\<lambda>e. \<not> nosave args \<and> e mod 3 = 2) es)"
proof (induction es arbitrary: st w)
  case Nil
  then show ?case by simp
next
  case (Cons epoch rest)
  from Cons.prems obtain w1 st1 where
    e: "train_epoch L E args sample epoch st w = (w1, Inr st1)"
    and r: "train_loop L E args sample rest st1 w1 = (w', Inr st')"
    unfolding train_loop_Cons_Inr by blast
  from train_epoch_saved [OF e] Cons.IH [OF r] show ?case by simp
qed

lemma train_loop_emitted:
  "train_loop L E args sample es st w = (w', Inr st') \<Longrightarrow>
     \<exists>new. events w' = events w @ new \<and>
           (\<forall>e \<in> set es. \<exists>v. AddScalar ''accuracy/Train'' v (e + 1) \<in> set new)"
proof (induction es arbitrary: st w)
  case Nil
  then show ?case by simp
next
  case (Cons epoch rest)
  from Cons.prems obtain w1 st1 where
    e: "train_epoch L E args sample epoch st w = (w1, Inr st1)"
    and r: "train_loop L E args sample rest st1 w1 = (w', Inr st')"
    unfolding train_loop_Cons_Inr by blast
  from train_epoch_emitted [OF e] obtain ev_loss v ev_eval ev_fig where
    n1: "events w1 = events w @ [ev_loss, AddScalar ''accuracy/Train'' v (epoch + 1),
                                  ev_eval, ev_fig]"
    by blast
  from Cons.IH [OF r] obtain new2 where
    n2: "events w' = events w1 @ new2"
    and a2: "\<forall>e \<in> set rest. \<exists>v. AddScalar ''accuracy/Train'' v (e + 1) \<in> set new2"
    by blast
  let ?new = "[ev_loss, AddScalar ''accuracy/Train'' v (epoch + 1), ev_eval, ev_fig] @ new2"
  from n1 n2 have "events w' = events w @ ?new" by simp
  moreover from a2
  have "\<forall>e \<in> set (epoch # rest). \<exists>v. AddScalar ''accuracy/Train'' v (e + 1) \<in> set ?new"
    by auto
  ultimately show ?case by blast
qed

text \<open>
  Whatever becomes of the loop, every scalar \<^verbatim>\<open>accuracy/Train\<close> that it has sent belongs to
  one of its epochs and carries that epoch's count of right predictions divided by the
  number of batches.
\<close>

lemma train_loop_accuracy:
  "train_loop L E args sample es st w = (w', r) \<Longrightarrow>
     \<exists>new. events w' = events w @ new \<and>
       (\<forall>v s. AddScalar ''accuracy/Train'' v s \<in> set new \<longrightarrow>
          (\<exists>pre epoch post wk st_k ots.
             es = pre @ epoch # post \<and> s = epoch + 1 \<and>
             train_loop L E args sample pre st w = (wk, Inr st_k) \<and>
             epoch_outputs L (lr st_k) (train_dataloader args) (opt_state st_k)
               (set_train L (model st_k)) = Inr ots \<and>
             v = real (\<Sum>ot \<leftarrow> ots. correct_predictions ot)
                   / real (length (train_dataloader args))))"
proof (induction es arbitrary: st w)
  case Nil
  then have "events w' = events w @ []" by simp
  then show ?case by (intro exI [of _ "[]"]) simp
next
  case (Cons e rest)
  let ?S = "\<lambda>e st. {ev. \<forall>v s. ev = AddScalar ''accuracy/Train'' v s \<longrightarrow>
        s = e + 1 \<and>
        (\<exists>ots. epoch_outputs L (lr st) (train_dataloader args) (opt_state st)
                 (set_train L (model st)) = Inr ots \<and>
               v = real (\<Sum>ot \<leftarrow> ots. correct_predictions ot)
                     / real (length (train_dataloader args)))}"
  have first: "\<exists>pre epoch post wk st_k ots.
             e # rest = pre @ epoch # post \<and> s = epoch + 1 \<and>
             train_loop L E args sample pre st w = (wk, Inr st_k) \<and>
             epoch_outputs L (lr st_k) (train_dataloader args) (opt_state st_k)
               (set_train L (model st_k)) = Inr ots \<and>
             v = real (\<Sum>ot \<leftarrow> ots. correct_predictions ot)
                   / real (length (train_dataloader args))"
    if "AddScalar ''accuracy/Train'' v s \<in> set new1" and "set new1 \<subseteq> ?S e st"
    for v s new1
  proof -
    from that obtain ots where "s = e + 1"
      and "epoch_outputs L (lr st) (train_dataloader args) (opt_state st)
             (set_train L (model st)) = Inr ots"
      and "v = real (\<Sum>ot \<leftarrow> ots. correct_predictions ot)
                 / real (length (train_dataloader args))"
      by blast
    then show ?thesis
      by (intro exI [of _ "[]"] exI [of _ e] exI [of _ rest] exI [of _ w] exI [of _ st]
            exI [of _ ots]) simp
  qed
  show ?case
  proof (cases rule: run_cases [of "train_epoch L E args sample e st" w])
    case (Raises w1 err)
    with Cons.prems have w': "w' = w1" by (simp add: and_then_raise)
    from emits_onlyD [OF train_epoch_emits Raises] obtain new1 where
      n1: "events w1 = events w @ new1" and s1: "set new1 \<subseteq> ?S e st"
      by blast
    from n1 w' first [OF _ s1] show ?thesis by blast
  next
    case (Returns w1 st1)
    with Cons.prems have r: "train_loop L E args sample rest st1 w1 = (w', r)"
      by (simp add: and_then_step)
    from emits_onlyD [OF train_epoch_emits Returns] obtain new1 where
      n1: "events w1 = events w @ new1" and s1: "set new1 \<subseteq> ?S e st"
      by blast
    from Cons.IH [OF r] obtain new2 where
      n2: "events w' = events w1 @ new2"
      and a2: "\<forall>v s. AddScalar ''accuracy/Train'' v s \<in> set new2 \<longrightarrow>
          (\<exists>pre epoch post wk st_k ots.
             rest = pre @ epoch # post \<and> s = epoch + 1 \<and>
             train_loop L E args sample pre st1 w1 = (wk, Inr st_k) \<and>
             epoch_outputs L (lr st_k) (train_dataloader args) (opt_state st_k)
               (set_train L (model st_k)) = Inr ots \<and>
             v = real (\<Sum>ot \<leftarrow> ots. correct_predictions ot)
                   / real (length (train_dataloader args)))"
      by blast
    have later: "\<exists>pre epoch post wk st_k ots.
             e # rest = pre @ epoch # post \<and> s = epoch + 1 \<and>
             train_loop L E args sample pre st w = (wk, Inr st_k) \<and>
             epoch_outputs L (lr st_k) (train_dataloader args) (opt_state st_k)
               (set_train L (model st_k)) = Inr ots \<and>
             v = real (\<Sum>ot \<leftarrow> ots. correct_predictions ot)
                   / real (length (train_dataloader args))"
      if "AddScalar ''accuracy/Train'' v s \<in> set new2" for v s
    proof -
      from a2 that obtain pre epoch post wk st_k ots where
        "rest = pre @ epoch # post" "s = epoch + 1"
        "train_loop L E args sample pre st1 w1 = (wk, Inr st_k)"
        "epoch_outputs L (lr st_k) (train_dataloader args) (opt_state st_k)
               (set_train L (model st_k)) = Inr ots"
        "v = real (\<Sum>ot \<leftarrow> ots. correct_predictions ot)
                   / real (length (train_dataloader args))"
        by blast
      with Returns show ?thesis
        by (intro exI [of _ "e # pre"] exI [of _ epoch] exI [of _ post] exI [of _ wk]
              exI [of _ st_k] exI [of _ ots]) (simp add: and_then_step)
    qed
    from n1 n2 have "events w' = events w @ (new1 @ new2)" by simp
    moreover have "\<exists>pre epoch post wk st_k ots.
             e # rest = pre @ epoch # post \<and> s = epoch + 1 \<and>
             train_loop L E args sample pre st w = (wk, Inr st_k) \<and>
             epoch_outputs L (lr st_k) (train_dataloader args) (opt_state st_k)
               (set_train L (model st_k)) = Inr ots \<and>
             v = real (\<Sum>ot \<leftarrow> ots. correct_predictions ot)
                   / real (length (train_dataloader args))"
      if "AddScalar ''accuracy/Train'' v s \<in> set (new1 @ new2)" for v s
      using that first [OF _ s1] later by auto
    ultimately show ?thesis by blast
  qed
qed

lemma upt_split:
  assumes "[0..<n] = pre @ e # post"
  shows "pre = [0..<e] \<and> e < n"
proof -
  from assms have len: "length pre < n"
    by (metis add_diff_cancel_right' length_append length_upt less_add_Suc1 list.size(4)
          add_Suc_right minus_nat.diff_0)
  from assms have "[0..<n] ! length pre = e" by simp
  with len have e: "e = length pre" by simp
  from assms have "take (length pre) [0..<n] = pre" by simp
  with len have "pre = [0..<length pre]" by (simp add: take_upt)
  with e len show ?thesis by simp
qed

subsection \<open>Setting up and running\<close>

lemma train_setup_Inr:
  assumes "train_setup L E mdl args w = (w0, Inr (sample, st0))"
  shows "(\<exists>rest. test_dataloader args = sample # rest) \<and>
         events w0 = events w \<and> saved w0 = saved w \<and>
         lr st0 = 1 / 100000 \<and>
         scheduler st0 = \<lparr>start_factor = 1, end_factor = 1 / 10,
                          total_iters = int_epochs_times_0_7 (epochs args), last_epoch = 0\<rparr>"
proof -
  from quietD [OF quiet_train_setup assms]
  have "events w0 = events w \<and> saved w0 = saved w" .
  moreover from assms
  have "(\<exists>rest. test_dataloader args = sample # rest) \<and> lr st0 = 1 / 100000 \<and>
        scheduler st0 = \<lparr>start_factor = 1, end_factor = 1 / 10,
                         total_iters = int_epochs_times_0_7 (epochs args), last_epoch = 0\<rparr>"
    unfolding train_setup_def
    by (auto simp: and_then_Inr attempt_eq_Inr LinearLR_def split: list.splits if_splits)
  ultimately show ?thesis by simp
qed

lemma train_model_Inr:
  assumes "train_model L E mdl args w = (w', Inr st')"
  shows "\<exists>w0 sample st0. train_setup L E mdl args w = (w0, Inr (sample, st0)) \<and>
           train_loop L E args sample [0..<epochs args] st0 w0 = (w', Inr st')"
  using assms unfolding train_model_def by (auto simp: and_then_Inr)

lemma train_model_prefix:
  assumes "train_model L E mdl args w = (w', Inr st')" and "k \<le> epochs args"
  shows "\<exists>w0 sample st0 wk st_k.
           train_setup L E mdl args w = (w0, Inr (sample, st0)) \<and>
           train_loop L E args sample [0..<k] st0 w0 = (wk, Inr st_k)"
proof -
  from train_model_Inr [OF assms(1)] obtain w0 sample st0
    where s: "train_setup L E mdl args w = (w0, Inr (sample, st0))"
      and l: "train_loop L E args sample [0..<epochs args] st0 w0 = (w', Inr st')"
    by blast
  from assms(2) have "[0..<epochs args] = [0..<k] @ [k..<epochs args]"
    by (metis le_add_diff_inverse upt_add_eq_append zero_le)
  with l have "train_loop L E args sample ([0..<k] @ [k..<epochs args]) st0 w0 = (w', Inr st')"
    by simp
  then obtain wk st_k where "train_loop L E args sample [0..<k] st0 w0 = (wk, Inr st_k)"
    unfolding train_loop_append_Inr by blast
  with s show ?thesis by blast
qed

subsection \<open>Example runs\<close>

lemmas run_defs = train_model_def train_setup_def train_epoch_def eval_model_def
  plot_classes_preds_def scheduler_step_def get_lr_def LinearLR_def BCELoss_def
  count_correct_def predicted_def path_join_def digit_char_def id_learner_def pure_learner_def
  batch5_def batch3_def model0_def world0_def and_then_def returns_def divide_def emit_def
  save_file_def make_dirs_eq Let_def

lemma int_epochs_times_0_7_1: "int_epochs_times_0_7 (Suc 0) = 0"
  by (simp add: int_epochs_times_0_7_def round_to_double_def bitlen.simps Let_def)

lemma int_epochs_times_0_7_3: "int_epochs_times_0_7 3 = 2"
  by (simp add: int_epochs_times_0_7_def round_to_double_def bitlen.simps Let_def)

lemma int_epochs_times_0_7_examples:
  "int_epochs_times_0_7 10 = 7" "int_epochs_times_0_7 90 = 62" "int_epochs_times_0_7 300 = 210"
  by (simp_all add: int_epochs_times_0_7_def round_to_double_def bitlen.simps Let_def)

lemma run_args1:
  "\<exists>w' st'. train_model id_learner env_ok model0 args1 world0 = (w', Inr st') \<and>
     lr st' = 1 / 100000"
  by (simp add: run_defs args1_def env_ok_def int_epochs_times_0_7_1 str_nat.simps)

lemma run_args3:
  "\<exists>w' st'. train_model id_learner env_ok model0 args3 world0 = (w', Inr st')"
  by (simp add: run_defs args3_def env_ok_def int_epochs_times_0_7_3 str_nat.simps upt_rec)

subsection \<open>Checkpoints\<close>

text \<open>
  Claim C4. In a run of \<open>train_model\<close> that returns, the files written by \<^verbatim>\<open>torch.save\<close> are,
  in order, \<^verbatim>\<open>os.path.join(save_dir, f"{epoch}.pt")\<close> for exactly the epochs of \<open>0..N-1\<close>
  with \<open>epoch mod 3 = 2\<close> when \<open>nosave\<close> is false, and none at all when \<open>nosave\<close> is true. The
  same holds at every point of a run, whether it returns or not: after the first \<open>k\<close>
  epochs the files written are those of the epochs below \<open>k\<close>.
\<close>

theorem checkpoint_cadence:
  assumes "train_model L E mdl args w = (w', Inr st')"
  shows "map fst (saved w') = map fst (saved w) @
           (if nosave args then []
            else map (\<lambda>epoch. path_join (save_dir args) (str_nat epoch @ ''.pt''))
                   (filter (\<lambda>epoch. epoch mod 3 = 2) [0..<epochs args])) \<and>
         (\<forall>w0 sample st0 k wk st_k.
            train_setup L E mdl args w = (w0, Inr (sample, st0)) \<and>
            train_loop L E args sample [0..<k] st0 w0 = (wk, Inr st_k) \<longrightarrow>
            map fst (saved wk) = map fst (saved w) @
              (if nosave args then []
               else map (\<lambda>epoch. path_join (save_dir args) (str_nat epoch @ ''.pt''))
                      (filter (\<lambda>epoch. epoch mod 3 = 2) [0..<k])))"
proof -
  have prefix: "map fst (saved wk) = map fst (saved w) @
      (if nosave args then []
       else map (\<lambda>epoch. path_join (save_dir args) (str_nat epoch @ ''.pt''))
              (filter (\<lambda>epoch. epoch mod 3 = 2) [0..<k]))"
    if s: "train_setup L E mdl args w = (w0, Inr (sample, st0))"
      and l: "train_loop L E args sample [0..<k] st0 w0 = (wk, Inr st_k)"
    for w0 sample st0 k wk st_k
  proof -
    from train_setup_Inr [OF s] have "saved w0 = saved w" by simp
    with train_loop_saved [OF l] show ?thesis by simp
  qed
  from train_model_Inr [OF assms] obtain w0 sample st0
    where s: "train_setup L E mdl args w = (w0, Inr (sample, st0))"
      and l: "train_loop L E args sample [0..<epochs args] st0 w0 = (w', Inr st')"
    by blast
  from prefix [OF s l] prefix show ?thesis by blast
qed

theorem checkpoint_cadence_witness:
  "\<exists>w' st'. train_model id_learner env_ok model0 args3 world0 = (w', Inr st') \<and>
         map fst (saved w') = [''ckpt/2.pt''] \<and>
         filter (\<lambda>epoch. epoch mod 3 = 2) [0..<epochs args3] = [2]"
proof -
  from run_args3 obtain w' st' where
    run: "train_model id_learner env_ok model0 args3 world0 = (w', Inr st')"
    by blast
  have names: "map fst (saved w') = [''ckpt/2.pt'']"
    using checkpoint_cadence [OF run, THEN conjunct1]
    by (simp add: args3_def world0_def upt_rec path_join_def str_nat.simps digit_char_def)
  have due: "filter (\<lambda>epoch. epoch mod 3 = 2) [0..<epochs args3] = [2]"
    by (simp add: args3_def upt_rec)
  show ?thesis
    by (rule exI [of _ w'], rule exI [of _ st']) (simp only: run names due simp_thms)
qed

subsection \<open>The learning-rate schedule\<close>

lemma scheduler_step_linear:
  assumes "1 \<le> T"
  shows "scheduler_step
           \<lparr>start_factor = 1, end_factor = 1 / 10, total_iters = T, last_epoch = j\<rparr>
           (base * linear_factor T j)
         = (\<lparr>start_factor = 1, end_factor = 1 / 10, total_iters = T, last_epoch = Suc j\<rparr>,
            base * linear_factor T (Suc j))"
proof (cases "T < Suc j")
  case True
  then have "min (Suc j) T = min j T" by simp
  with True show ?thesis
    by (simp add: scheduler_step_def get_lr_def linear_factor_def)
next
  case False
  then have jT: "j < T" by simp
  define d where "d = real T - 9 / 10 * real j"
  have dpos: "0 < d"
    using jT by (simp add: d_def)
  have Tpos: "0 < real T" using assms by simp
  have lf: "linear_factor T j = d / real T"
    using jT Tpos by (simp add: linear_factor_def d_def field_simps)
  have lf': "linear_factor T (Suc j) = (d - 9 / 10) / real T"
    using jT Tpos by (simp add: linear_factor_def d_def field_simps)
  have den: "real T * 1 + real (Suc j - 1) * (1 / 10 - 1) = d"
    by (simp add: d_def)
  have "base * linear_factor T j * (1 + (1 / 10 - 1) / d) = base * linear_factor T (Suc j)"
    using dpos Tpos by (simp add: lf lf' field_simps)
  with False den show ?thesis
    by (simp add: scheduler_step_def get_lr_def del: of_nat_Suc)
qed

lemma train_loop_lr:
  assumes "1 \<le> T"
  shows "train_loop L E args sample es st w = (w', Inr st') \<Longrightarrow>
     scheduler st = \<lparr>start_factor = 1, end_factor = 1 / 10, total_iters = T, last_epoch = j\<rparr> \<Longrightarrow>
     lr st = base * linear_factor T j \<Longrightarrow>
     scheduler st' = \<lparr>start_factor = 1, end_factor = 1 / 10, total_iters = T,
                       last_epoch = j + length es\<rparr> \<and>
     lr st' = base * linear_factor T (j + length es)"
proof (induction es arbitrary: st w j)
  case Nil
  then show ?case by simp
next
  case (Cons epoch rest)
  from Cons.prems(1) obtain w1 st1 where
    e: "train_epoch L E args sample epoch st w = (w1, Inr st1)"
    and r: "train_loop L E args sample rest st1 w1 = (w', Inr st')"
    unfolding train_loop_Cons_Inr by blast
  from train_epoch_scheduler [OF e] Cons.prems(2,3) scheduler_step_linear [OF assms, of j base]
  have "scheduler st1 = \<lparr>start_factor = 1, end_factor = 1 / 10, total_iters = T,
                          last_epoch = Suc j\<rparr>"
    and "lr st1 = base * linear_factor T (Suc j)"
    by simp_all
  from Cons.IH [OF r this] show ?case by simp
qed

text \<open>
  Claim C5, as the code has it. Let the run have at least two epochs and let
  \<open>T = int(epochs * 0.7)\<close>. Then \<open>T\<close> is at least \<open>1\<close> and, below \<open>2 ^ 49\<close> epochs, within one
  of seven tenths of the epochs. In a run of \<open>train_model\<close> that returns, the learning rate
  at the start of epoch \<open>k\<close> (after \<open>k\<close> scheduler steps, for every \<open>k\<close> up to the number of
  epochs) is the base rate \<open>1e-5\<close> times \<open>1 - 0.9 * min(k, T) / T\<close>: it falls linearly from
  \<open>1.0\<close> times the base rate at \<open>k = 0\<close> to \<open>0.1\<close> times at \<open>k = T\<close> and stays there.
\<close>

theorem lr_schedule:
  assumes "train_model L E mdl args w = (w', Inr st')"
    and "T = int_epochs_times_0_7 (epochs args)"
    and "2 \<le> epochs args"
    and "k \<le> epochs args"
  shows "1 \<le> T \<and>
         (epochs args < 2 ^ 49 \<longrightarrow>
            10 * T \<le> 7 * epochs args \<and> 7 * epochs args \<le> 10 * T + 10) \<and>
         (\<exists>w0 sample st0 wk st_k.
            train_setup L E mdl args w = (w0, Inr (sample, st0)) \<and>
            train_loop L E args sample [0..<k] st0 w0 = (wk, Inr st_k) \<and>
            lr st_k = 1 / 100000 * (1 - 9 / 10 * real (min k T) / real T) \<and>
            (T \<le> k \<longrightarrow> lr st_k = 1 / 100000 * (1 / 10)))"
proof (intro conjI impI)
  show T1: "1 \<le> T"
    unfolding assms(2) using assms(3) by (rule int_epochs_times_0_7_pos)
  from train_model_prefix [OF assms(1,4)] obtain w0 sample st0 wk st_k
    where s: "train_setup L E mdl args w = (w0, Inr (sample, st0))"
      and l: "train_loop L E args sample [0..<k] st0 w0 = (wk, Inr st_k)"
    by blast
  from train_setup_Inr [OF s] assms(2)
  have sched: "scheduler st0 =
      \<lparr>start_factor = 1, end_factor = 1 / 10, total_iters = T, last_epoch = 0\<rparr>"
    and "lr st0 = 1 / 100000"
    by simp_all
  then have rate: "lr st0 = 1 / 100000 * linear_factor T 0"
    by (simp add: linear_factor_def)
  from train_loop_lr [OF T1 l sched rate]
  have lrk: "lr st_k = 1 / 100000 * (1 - 9 / 10 * real (min k T) / real T)"
    by (simp add: linear_factor_def)
  have "lr st_k = 1 / 100000 * (1 / 10)" if "T \<le> k"
  proof -
    from that have "min k T = T" by simp
    with lrk T1 show ?thesis by simp
  qed
  with s l lrk
  show "\<exists>w0 sample st0 wk st_k.
          train_setup L E mdl args w = (w0, Inr (sample, st0)) \<and>
          train_loop L E args sample [0..<k] st0 w0 = (wk, Inr st_k) \<and>
          lr st_k = 1 / 100000 * (1 - 9 / 10 * real (min k T) / real T) \<and>
          (T \<le> k \<longrightarrow> lr st_k = 1 / 100000 * (1 / 10))"
    by blast
next
  assume "epochs args < 2 ^ 49"
  then show "10 * T \<le> 7 * epochs args" and "7 * epochs args \<le> 10 * T + 10"
    unfolding assms(2) by (simp_all add: int_epochs_times_0_7_bounds)
qed

theorem lr_schedule_witness:
  "int_epochs_times_0_7 (epochs args3) = 2 \<and> epochs args3 = 3 \<and>
   (\<exists>w0 sample st0 wk st_k.
      train_setup id_learner env_ok model0 args3 world0 = (w0, Inr (sample, st0)) \<and>
      train_loop id_learner env_ok args3 sample [0..<1] st0 w0 = (wk, Inr st_k) \<and>
      lr st_k = 11 / 2000000) \<and>
   (\<exists>w0 sample st0 wk st_k.
      train_setup id_learner env_ok model0 args3 world0 = (w0, Inr (sample, st0)) \<and>
      train_loop id_learner env_ok args3 sample [0..<3] st0 w0 = (wk, Inr st_k) \<and>
      lr st_k = 1 / 1000000)"
proof -
  from run_args3 obtain w' st' where
    run: "train_model id_learner env_ok model0 args3 world0 = (w', Inr st')"
    by blast
  have T: "2 = int_epochs_times_0_7 (epochs args3)"
    by (simp add: args3_def int_epochs_times_0_7_3)
  have N: "epochs args3 = 3" by (simp add: args3_def)
  have k1: "1 \<le> epochs args3" and k3: "3 \<le> epochs args3" and n2: "2 \<le> epochs args3"
    by (simp_all add: args3_def)
  from lr_schedule [OF run T n2 k1, THEN conjunct2, THEN conjunct2]
  obtain w0 sample st0 wk st_k
    where s: "train_setup id_learner env_ok model0 args3 world0 = (w0, Inr (sample, st0))"
      and l: "train_loop id_learner env_ok args3 sample [0..<1] st0 w0 = (wk, Inr st_k)"
      and r: "lr st_k = 1 / 100000 * (1 - 9 / 10 * real (min 1 (2::nat)) / real (2::nat))"
    by blast
  from r have "lr st_k = 11 / 2000000" by simp
  with s l have first: "\<exists>w0 sample st0 wk st_k.
      train_setup id_learner env_ok model0 args3 world0 = (w0, Inr (sample, st0)) \<and>
      train_loop id_learner env_ok args3 sample [0..<1] st0 w0 = (wk, Inr st_k) \<and>
      lr st_k = 11 / 2000000"
    by blast
  from lr_schedule [OF run T n2 k3, THEN conjunct2, THEN conjunct2]
  obtain w0' sample' st0' wk' st_k'
    where s': "train_setup id_learner env_ok model0 args3 world0 = (w0', Inr (sample', st0'))"
      and l': "train_loop id_learner env_ok args3 sample' [0..<3] st0' w0' = (wk', Inr st_k')"
      and r': "(2::nat) \<le> 3 \<longrightarrow> lr st_k' = 1 / 100000 * (1 / 10)"
    by blast
  from r' have "lr st_k' = 1 / 1000000" by simp
  with s' l' have last: "\<exists>w0 sample st0 wk st_k.
      train_setup id_learner env_ok model0 args3 world0 = (w0, Inr (sample, st0)) \<and>
      train_loop id_learner env_ok args3 sample [0..<3] st0 w0 = (wk, Inr st_k) \<and>
      lr st_k = 1 / 1000000"
    by blast
  from T [symmetric] N first last show ?thesis by (intro conjI)
qed

text \<open>
  With a single epoch \<open>int(1 * 0.7)\<close> is \<open>0\<close>, the scheduler never changes the rate, and the
  rate is the base rate before and after the only epoch, not a tenth of it.
\<close>

theorem lr_schedule_counterexample:
  "int_epochs_times_0_7 (epochs args1) = 0 \<and>
   (\<exists>w0 sample st0 w' st'.
      train_setup id_learner env_ok model0 args1 world0 = (w0, Inr (sample, st0)) \<and>
      lr st0 = 1 / 100000 \<and>
      train_model id_learner env_ok model0 args1 world0 = (w', Inr st') \<and>
      lr st' = 1 / 100000 \<and> lr st' \<noteq> 1 / 100000 * (1 / 10))"
proof -
  from run_args1 obtain w' st' where
    run: "train_model id_learner env_ok model0 args1 world0 = (w', Inr st')"
    and rate: "lr st' = 1 / 100000"
    by blast
  from train_model_Inr [OF run] obtain w0 sample st0
    where s: "train_setup id_learner env_ok model0 args1 world0 = (w0, Inr (sample, st0))"
    by blast
  from train_setup_Inr [OF s] have r0: "lr st0 = 1 / 100000" by simp
  have T: "int_epochs_times_0_7 (epochs args1) = 0"
    by (simp add: args1_def int_epochs_times_0_7_1)
  from rate have ne: "lr st' \<noteq> 1 / 100000 * (1 / 10)" by simp
  from s r0 run rate ne have "\<exists>w0 sample st0 w' st'.
      train_setup id_learner env_ok model0 args1 world0 = (w0, Inr (sample, st0)) \<and>
      lr st0 = 1 / 100000 \<and>
      train_model id_learner env_ok model0 args1 world0 = (w', Inr st') \<and>
      lr st' = 1 / 100000 \<and> lr st' \<noteq> 1 / 100000 * (1 / 10)"
    by blast
  with T show ?thesis by (rule conjI)
qed

subsection \<open>The accuracy sent to the metrics sink\<close>

lemma sum_correct_predictions:
  "(\<Sum>ot \<leftarrow> ots. correct_predictions ot)
     = (\<Sum>(out, tgt) \<leftarrow> ots.
          card {i. i < length tgt \<and> (if 1 / 2 < out ! i then 1 else 0) = tgt ! i})"
  by (rule arg_cong [where f = sum_list])
    (auto simp: correct_predictions_def split: prod.splits)

text \<open>
  Claim C10. Take any run of \<open>train_model\<close>, whether it returns or raises. Every scalar
  \<^verbatim>\<open>accuracy/Train\<close> that the run has sent to the metrics sink belongs to one epoch of the
  run: its step is \<open>epoch + 1\<close>, and its value is the number of samples of the epoch's
  training batches whose output, thresholded at \<open>0.5\<close>, equals the target, divided by the
  number of training batches \<^verbatim>\<open>len(train_dataloader)\<close>, where each batch is predicted by the
  model as the optimizer steps before it left it. A run that returns has sent one for
  every epoch.
\<close>

theorem train_accuracy_is_per_batch:
  assumes "train_model L E mdl args w = (w', r)"
  shows "\<exists>new. events w' = events w @ new \<and>
     (\<forall>v s. AddScalar ''accuracy/Train'' v s \<in> set new \<longrightarrow>
        (\<exists>epoch w0 sample st0 wk st_k ots.
           epoch < epochs args \<and> s = epoch + 1 \<and>
           train_setup L E mdl args w = (w0, Inr (sample, st0)) \<and>
           train_loop L E args sample [0..<epoch] st0 w0 = (wk, Inr st_k) \<and>
           epoch_outputs L (lr st_k) (train_dataloader args) (opt_state st_k)
             (set_train L (model st_k)) = Inr ots \<and>
           v = real (\<Sum>(out, tgt) \<leftarrow> ots.
                       card {i. i < length tgt \<and>
                                (if 1 / 2 < out ! i then 1 else 0) = tgt ! i})
                 / real (length (train_dataloader args)))) \<and>
     (\<forall>st'. r = Inr st' \<longrightarrow>
        (\<forall>epoch < epochs args. \<exists>v. AddScalar ''accuracy/Train'' v (epoch + 1) \<in> set new))"
proof (cases rule: run_cases [of "train_setup L E mdl args" w])
  case (Raises w0 e)
  with assms have "w' = w0" and "r = Inl e"
    by (simp_all add: train_model_def and_then_raise)
  with quietD [OF quiet_train_setup Raises] have "events w' = events w @ []" and "r = Inl e"
    by simp_all
  then show ?thesis by (intro exI [of _ "[]"]) simp
next
  case (Returns w0 v0)
  obtain sample st0 where v0: "v0 = (sample, st0)" by (cases v0)
  from Returns v0 have s: "train_setup L E mdl args w = (w0, Inr (sample, st0))" by simp
  with assms have l: "train_loop L E args sample [0..<epochs args] st0 w0 = (w', r)"
    by (simp add: train_model_def and_then_step)
  from quietD [OF quiet_train_setup s] have e0: "events w0 = events w" by simp
  from train_loop_accuracy [OF l] obtain new where
    n: "events w' = events w0 @ new"
    and a: "\<forall>v s. AddScalar ''accuracy/Train'' v s \<in> set new \<longrightarrow>
          (\<exists>pre epoch post wk st_k ots.
             [0..<epochs args] = pre @ epoch # post \<and> s = epoch + 1 \<and>
             train_loop L E args sample pre st0 w0 = (wk, Inr st_k) \<and>
             epoch_outputs L (lr st_k) (train_dataloader args) (opt_state st_k)
               (set_train L (model st_k)) = Inr ots \<and>
             v = real (\<Sum>ot \<leftarrow> ots. correct_predictions ot)
                   / real (length (train_dataloader args)))"
    by blast
  have one: "\<exists>epoch w0 sample st0 wk st_k ots.
           epoch < epochs args \<and> s = epoch + 1 \<and>
           train_setup L E mdl args w = (w0, Inr (sample, st0)) \<and>
           train_loop L E args sample [0..<epoch] st0 w0 = (wk, Inr st_k) \<and>
           epoch_outputs L (lr st_k) (train_dataloader args) (opt_state st_k)
             (set_train L (model st_k)) = Inr ots \<and>
           v = real (\<Sum>(out, tgt) \<leftarrow> ots.
                       card {i. i < length tgt \<and>
                                (if 1 / 2 < out ! i then 1 else 0) = tgt ! i})
                 / real (length (train_dataloader args))"
    if "AddScalar ''accuracy/Train'' v s \<in> set new" for v s
  proof -
    from a that obtain pre epoch post wk st_k ots where
      split: "[0..<epochs args] = pre @ epoch # post" and step: "s = epoch + 1"
      and loop: "train_loop L E args sample pre st0 w0 = (wk, Inr st_k)"
      and outs: "epoch_outputs L (lr st_k) (train_dataloader args) (opt_state st_k)
               (set_train L (model st_k)) = Inr ots"
      and val: "v = real (\<Sum>ot \<leftarrow> ots. correct_predictions ot)
                   / real (length (train_dataloader args))"
      by blast
    from upt_split [OF split] have pre: "pre = [0..<epoch]" and lt: "epoch < epochs args"
      by simp_all
    from val have val': "v = real (\<Sum>(out, tgt) \<leftarrow> ots.
                       card {i. i < length tgt \<and>
                                (if 1 / 2 < out ! i then 1 else 0) = tgt ! i})
                 / real (length (train_dataloader args))"
      by (simp only: sum_correct_predictions)
    from lt step s loop [unfolded pre] outs val' show ?thesis by blast
  qed
  have all: "\<forall>epoch < epochs args. \<exists>v. AddScalar ''accuracy/Train'' v (epoch + 1) \<in> set new"
    if "r = Inr st'" for st'
  proof -
    from train_loop_emitted [OF l [unfolded that]] obtain new' where
      "events w' = events w0 @ new'"
      and "\<forall>e \<in> set [0..<epochs args]. \<exists>v. AddScalar ''accuracy/Train'' v (e + 1) \<in> set new'"
      by blast
    with n show ?thesis by simp
  qed
  from n e0 have "events w' = events w @ new" by simp
  with one all show ?thesis by blast
qed

lemma epoch_outputs_args1:
  "epoch_outputs id_learner rate (train_dataloader args1) opt (set_train id_learner model0)
     = Inr [(inputs batch5, targets batch5)]"
  by (simp add: args1_def id_learner_def pure_learner_def)

theorem train_accuracy_is_per_batch_witness:
  "\<exists>w' st'.
     train_model id_learner env_ok model0 args1 world0 = (w', Inr st') \<and>
     AddScalar ''accuracy/Train'' 4 1 \<in> set (events w') \<and>
     length (train_dataloader args1) = 1 \<and> length (targets batch5) = 5 \<and>
     card {i. i < length (targets batch5) \<and>
              (if 1 / 2 < inputs batch5 ! i then 1 else 0) = targets batch5 ! i} = 4"
proof -
  from run_args1 obtain w' st' where
    run: "train_model id_learner env_ok model0 args1 world0 = (w', Inr st')"
    by blast
  from train_accuracy_is_per_batch [OF run] obtain new where
    n: "events w' = events world0 @ new"
    and a: "\<forall>v s. AddScalar ''accuracy/Train'' v s \<in> set new \<longrightarrow>
        (\<exists>epoch w0 sample st0 wk st_k ots.
           epoch < epochs args1 \<and> s = epoch + 1 \<and>
           train_setup id_learner env_ok model0 args1 world0 = (w0, Inr (sample, st0)) \<and>
           train_loop id_learner env_ok args1 sample [0..<epoch] st0 w0 = (wk, Inr st_k) \<and>
           epoch_outputs id_learner (lr st_k) (train_dataloader args1) (opt_state st_k)
             (set_train id_learner (model st_k)) = Inr ots \<and>
           v = real (\<Sum>(out, tgt) \<leftarrow> ots.
                       card {i. i < length tgt \<and>
                                (if 1 / 2 < out ! i then 1 else 0) = tgt ! i})
                 / real (length (train_dataloader args1)))"
    and b: "\<forall>epoch < epochs args1. \<exists>v. AddScalar ''accuracy/Train'' v (epoch + 1) \<in> set new"
    by blast
  have c5: "card {i. i < length (targets batch5) \<and>
              (if 1 / 2 < inputs batch5 ! i then 1 else 0) = targets batch5 ! i} = 4"
    by (subst card_correct_filter) (simp_all add: batch5_def)
  from b have "\<exists>v. AddScalar ''accuracy/Train'' v (0 + 1) \<in> set new"
    by (simp add: args1_def)
  then obtain v where ev: "AddScalar ''accuracy/Train'' v 1 \<in> set new" by auto
  with a obtain epoch w0 sample st0 wk st_k ots where
    e: "epoch < epochs args1" "(1::nat) = epoch + 1"
    and s: "train_setup id_learner env_ok model0 args1 world0 = (w0, Inr (sample, st0))"
    and l: "train_loop id_learner env_ok args1 sample [0..<epoch] st0 w0 = (wk, Inr st_k)"
    and o: "epoch_outputs id_learner (lr st_k) (train_dataloader args1) (opt_state st_k)
             (set_train id_learner (model st_k)) = Inr ots"
    and v: "v = real (\<Sum>(out, tgt) \<leftarrow> ots.
                       card {i. i < length tgt \<and>
                                (if 1 / 2 < out ! i then 1 else 0) = tgt ! i})
                 / real (length (train_dataloader args1))"
    by blast
  from e have "epoch = 0" by simp
  with l have "st_k = st0" by simp
  from s have "model st0 = model0"
    unfolding train_setup_def
    by (auto simp: and_then_Inr attempt_eq_Inr id_learner_def pure_learner_def make_dirs_eq
          split: list.splits option.splits if_splits)
  with o \<open>st_k = st0\<close> epoch_outputs_args1 have "ots = [(inputs batch5, targets batch5)]"
    by simp
  with v have "v = real (card {i. i < length (targets batch5) \<and>
              (if 1 / 2 < inputs batch5 ! i then 1 else 0) = targets batch5 ! i} + 0)
       / real (length (train_dataloader args1))"
    by (simp only: list.map sum_list.Cons sum_list.Nil prod.case)
  then have "v = real (4 + 0) / real (length (train_dataloader args1))"
    by (simp only: c5)
  then have "v = 4" by (simp add: args1_def)
  with ev n have "AddScalar ''accuracy/Train'' 4 1 \<in> set (events w')"
    by (simp add: world0_def)
  moreover have "length (train_dataloader args1) = 1" "length (targets batch5) = 5"
    by (simp_all add: args1_def batch5_def)
  ultimately show ?thesis using run c5 by blast
qed

subsection \<open>Errors\<close>

lemma clean_nth:
  "clean entries \<Longrightarrow> i < length entries \<Longrightarrow> entries ! i = (c, Raised e) \<Longrightarrow>
     c = MakeDirs \<and> e = FileExistsError"
  by (auto simp: clean_def list_all_length)

text \<open>
  What an unforgiving piece of the program adds to the record of operations: an operation
  that raised, other than \<^verbatim>\<open>os.makedirs\<close> with \<^verbatim>\<open>FileExistsError\<close>, is the last operation
  of the run and its exception is the result of the run; and a run that raises has such a
  last operation.
\<close>

lemma unforgiving_trace:
  assumes "unforgiving m" and "m w = (w', r)"
  shows "\<exists>new. calls w' = calls w @ new \<and>
     (\<forall>i c e. i < length new \<and> new ! i = (c, Raised e) \<and>
              \<not> (c = MakeDirs \<and> e = FileExistsError) \<longrightarrow>
              Suc i = length new \<and> r = Inl e) \<and>
     (\<forall>e. r = Inl e \<longrightarrow>
          new \<noteq> [] \<and> (\<exists>c. last new = (c, Raised e) \<and> \<not> (c = MakeDirs \<and> e = FileExistsError)))"
proof (cases r)
  case (Inr v)
  with unforgiving_Inr [OF assms(1)] assms(2) obtain new where
    n: "calls w' = calls w @ new" and c: "clean new"
    by blast
  from c have "\<forall>i c e. i < length new \<and> new ! i = (c, Raised e) \<and>
              \<not> (c = MakeDirs \<and> e = FileExistsError) \<longrightarrow>
              Suc i = length new \<and> r = Inl e"
    using clean_nth by blast
  with n Inr show ?thesis by auto
next
  case (Inl e0)
  with unforgiving_Inl [OF assms(1)] assms(2) obtain pre c0 where
    n: "calls w' = calls w @ pre @ [(c0, Raised e0)]" and c: "clean pre"
    and ne: "\<not> (c0 = MakeDirs \<and> e0 = FileExistsError)"
    by blast
  have "Suc i = length (pre @ [(c0, Raised e0)]) \<and> r = Inl e"
    if "i < length (pre @ [(c0, Raised e0)])"
      and "(pre @ [(c0, Raised e0)]) ! i = (c, Raised e)"
      and "\<not> (c = MakeDirs \<and> e = FileExistsError)"
    for i c e
  proof (cases "i < length pre")
    case True
    with that(2) have "pre ! i = (c, Raised e)" by (simp add: nth_append)
    from clean_nth [OF c True this] that(3) show ?thesis by simp
  next
    case False
    with that(1) have i: "i = length pre" by simp
    with that(2) have "e = e0" by simp
    with i Inl show ?thesis by simp
  qed
  then have "\<forall>i c e. i < length (pre @ [(c0, Raised e0)]) \<and>
              (pre @ [(c0, Raised e0)]) ! i = (c, Raised e) \<and>
              \<not> (c = MakeDirs \<and> e = FileExistsError) \<longrightarrow>
              Suc i = length (pre @ [(c0, Raised e0)]) \<and> r = Inl e"
    by blast
  moreover from Inl ne
  have "\<forall>e. r = Inl e \<longrightarrow>
          pre @ [(c0, Raised e0)] \<noteq> [] \<and>
          (\<exists>c. last (pre @ [(c0, Raised e0)]) = (c, Raised e) \<and>
               \<not> (c = MakeDirs \<and> e = FileExistsError))"
    by simp
  ultimately show ?thesis using n by blast
qed

text \<open>
  The set-up of \<open>train_model\<close> when the model, the sample batch and the optimizer are
  there: what \<^verbatim>\<open>os.makedirs\<close> does decides.
\<close>

lemma train_setup_makedirs:
  assumes "to_dev L mdl = Inr mdl1"
    and "test_dataloader args = sample # rest"
    and "new_adam L mdl1 = Inr opt"
    and "w4 = w\<lparr>calls := calls w @ [(ModelTo, Returned), (NextBatch, Returned),
                                     (NewAdam, Returned), (NewLinearLR, Returned)]\<rparr>"
    and "st0 = \<lparr>model = mdl1, opt_state = opt, lr = 1 / 100000,
                scheduler = \<lparr>start_factor = 1, end_factor = 1 / 10,
                              total_iters = int_epochs_times_0_7 (epochs args),
                              last_epoch = 0\<rparr>,
                postfix = []\<rparr>"
  shows "train_setup L E mdl args w =
     (case makedirs E w4 (save_dir args) of
        None \<Rightarrow> (w4\<lparr>calls := calls w4 @ [(MakeDirs, Returned)]\<rparr>, Inr (sample, st0))
      | Some e \<Rightarrow>
          (w4\<lparr>calls := calls w4 @ [(MakeDirs, Raised e)]\<rparr>,
           if e = FileExistsError then Inr (sample, st0) else Inl e))"
  using assms
  by (simp add: train_setup_def and_then_def returns_def LinearLR_def make_dirs_eq
        split: option.splits)

lemma load_data_Inr:
  assumes "load_data tf d = Inr (images, labels)"
  shows "\<exists>label_file listing.
           labels_txt d = Some label_file \<and> files d = Some listing \<and>
           None \<notin> set listing \<and>
           (\<forall>i < length listing. py_int (first_field (file_lines label_file ! i)) \<noteq> None)"
proof -
  from assms obtain label_file where lf: "labels_txt d = Some label_file"
    by (cases "labels_txt d") (auto simp: load_data_def)
  from assms lf obtain listing where ls: "files d = Some listing"
    by (cases "files d") (auto simp: load_data_def)
  from assms lf ls have "load_loop tf listing label_file [] [] = Inr (images, labels)"
    by (simp add: load_data_def)
  from load_loop_Inr [OF this]
  have len: "length listing \<le> length (file_lines label_file)"
    and im: "map Some images = map (map_option tf) listing"
    and la: "map Some labels =
        map (\<lambda>l. py_int (first_field l)) (take (length listing) (file_lines label_file))"
    by simp_all
  have "None \<notin> set listing"
  proof
    assume "None \<in> set listing"
    then have "map_option tf None \<in> set (map (map_option tf) listing)"
      by (simp only: set_map) (rule imageI)
    then have "None \<in> set (map Some images)" by (simp only: im option.map)
    then show False by auto
  qed
  moreover have "py_int (first_field (file_lines label_file ! i)) \<noteq> None"
    if "i < length listing" for i
  proof -
    from la have "length labels = length listing"
      using len by (metis length_map length_take min.absorb2)
    with that have "map Some labels ! i = Some (labels ! i)" by simp
    moreover from that len
    have "map (\<lambda>l. py_int (first_field l)) (take (length listing) (file_lines label_file)) ! i
        = py_int (first_field (file_lines label_file ! i))"
      by simp
    ultimately show ?thesis using la by simp
  qed
  ultimately show ?thesis using lf ls by blast
qed

text \<open>
  Claim C9. Take any run of \<open>train_model\<close>. In the record of the operations it performed,
  among them \<^verbatim>\<open>model.to\<close>, the optimizer and scheduler constructors, every forward pass,
  loss, optimizer step and comparison, the divisions, every call of the writer, the
  subplots of the figure and \<^verbatim>\<open>torch.save\<close>, an operation that raised is the last one and
  its exception is the result of the run, with the one exception of \<^verbatim>\<open>os.makedirs\<close>
  raising \<^verbatim>\<open>FileExistsError\<close>; and a run that raises ends with such an operation: nothing
  is swallowed, nothing runs after an exception, nothing is retried. When the set-up has
  come as far as \<^verbatim>\<open>os.makedirs\<close>, the run is the epoch loop from the initial state whether
  the directory is created or exists already, and any other exception of \<^verbatim>\<open>os.makedirs\<close>
  is the result of the run. \<open>load_data\<close> has no handler either: a missing labels file or
  image directory is its result, and when it returns, every file of the listing was
  decoded and every label line read was parsed.
\<close>

theorem only_existing_directory_is_recovered:
  assumes "train_model L E mdl args w = (w', r)"
  shows "(\<exists>new. calls w' = calls w @ new \<and>
            (\<forall>i c e. i < length new \<and> new ! i = (c, Raised e) \<and>
                     \<not> (c = MakeDirs \<and> e = FileExistsError) \<longrightarrow>
                     Suc i = length new \<and> r = Inl e) \<and>
            (\<forall>e. r = Inl e \<longrightarrow>
                 new \<noteq> [] \<and>
                 (\<exists>c. last new = (c, Raised e) \<and> \<not> (c = MakeDirs \<and> e = FileExistsError)))) \<and>
         (\<forall>mdl1 sample rest opt w4 st0.
            to_dev L mdl = Inr mdl1 \<and> test_dataloader args = sample # rest \<and>
            new_adam L mdl1 = Inr opt \<and>
            w4 = w\<lparr>calls := calls w @ [(ModelTo, Returned), (NextBatch, Returned),
                                        (NewAdam, Returned), (NewLinearLR, Returned)]\<rparr> \<and>
            st0 = \<lparr>model = mdl1, opt_state = opt, lr = 1 / 100000,
                   scheduler = \<lparr>start_factor = 1, end_factor = 1 / 10,
                                 total_iters = int_epochs_times_0_7 (epochs args),
                                 last_epoch = 0\<rparr>,
                   postfix = []\<rparr> \<longrightarrow>
            (makedirs E w4 (save_dir args) = Some FileExistsError \<longrightarrow>
               (w', r) = train_loop L E args sample [0..<epochs args] st0
                           (w4\<lparr>calls := calls w4 @ [(MakeDirs, Raised FileExistsError)]\<rparr>)) \<and>
            (makedirs E w4 (save_dir args) = None \<longrightarrow>
               (w', r) = train_loop L E args sample [0..<epochs args] st0
                           (w4\<lparr>calls := calls w4 @ [(MakeDirs, Returned)]\<rparr>)) \<and>
            (\<forall>e. makedirs E w4 (save_dir args) = Some e \<and> e \<noteq> FileExistsError \<longrightarrow>
                 w' = w4\<lparr>calls := calls w4 @ [(MakeDirs, Raised e)]\<rparr> \<and> r = Inl e)) \<and>
         (\<forall>tf d. labels_txt d = None \<or> files d = None \<longrightarrow>
                 load_data tf d = Inl FileNotFoundError) \<and>
         (\<forall>tf d images labels.
            load_data tf d = Inr (images, labels) \<longrightarrow>
            (\<exists>label_file listing.
               labels_txt d = Some label_file \<and> files d = Some listing \<and>
               None \<notin> set listing \<and>
               (\<forall>i < length listing.
                  py_int (first_field (file_lines label_file ! i)) \<noteq> None)))"
proof -
  have trace: "\<exists>new. calls w' = calls w @ new \<and>
            (\<forall>i c e. i < length new \<and> new ! i = (c, Raised e) \<and>
                     \<not> (c = MakeDirs \<and> e = FileExistsError) \<longrightarrow>
                     Suc i = length new \<and> r = Inl e) \<and>
            (\<forall>e. r = Inl e \<longrightarrow>
                 new \<noteq> [] \<and>
                 (\<exists>c. last new = (c, Raised e) \<and> \<not> (c = MakeDirs \<and> e = FileExistsError)))"
    by (rule unforgiving_trace [OF unforgiving_train_model assms])
  have dirs: "(makedirs E w4 (save_dir args) = Some FileExistsError \<longrightarrow>
               (w', r) = train_loop L E args sample [0..<epochs args] st0
                           (w4\<lparr>calls := calls w4 @ [(MakeDirs, Raised FileExistsError)]\<rparr>)) \<and>
            (makedirs E w4 (save_dir args) = None \<longrightarrow>
               (w', r) = train_loop L E args sample [0..<epochs args] st0
                           (w4\<lparr>calls := calls w4 @ [(MakeDirs, Returned)]\<rparr>)) \<and>
            (\<forall>e. makedirs E w4 (save_dir args) = Some e \<and> e \<noteq> FileExistsError \<longrightarrow>
                 w' = w4\<lparr>calls := calls w4 @ [(MakeDirs, Raised e)]\<rparr> \<and> r = Inl e)"
    if h: "to_dev L mdl = Inr mdl1 \<and> test_dataloader args = sample # rest \<and>
            new_adam L mdl1 = Inr opt \<and>
            w4 = w\<lparr>calls := calls w @ [(ModelTo, Returned), (NextBatch, Returned),
                                        (NewAdam, Returned), (NewLinearLR, Returned)]\<rparr> \<and>
            st0 = \<lparr>model = mdl1, opt_state = opt, lr = 1 / 100000,
                   scheduler = \<lparr>start_factor = 1, end_factor = 1 / 10,
                                 total_iters = int_epochs_times_0_7 (epochs args),
                                 last_epoch = 0\<rparr>,
                   postfix = []\<rparr>"
    for mdl1 sample rest opt w4 st0
  proof -
    from h have "train_setup L E mdl args w =
       (case makedirs E w4 (save_dir args) of
          None \<Rightarrow> (w4\<lparr>calls := calls w4 @ [(MakeDirs, Returned)]\<rparr>, Inr (sample, st0))
        | Some e \<Rightarrow>
            (w4\<lparr>calls := calls w4 @ [(MakeDirs, Raised e)]\<rparr>,
             if e = FileExistsError then Inr (sample, st0) else Inl e))"
      by (intro train_setup_makedirs) simp_all
    with assms show ?thesis
      by (cases "makedirs E w4 (save_dir args)")
        (auto simp: train_model_def and_then_def split: if_splits)
  qed
  have missing: "\<forall>tf d. labels_txt d = None \<or> files d = None \<longrightarrow>
                 load_data tf d = Inl FileNotFoundError"
    by (auto simp: load_data_def split: option.splits)
  have returned: "\<forall>tf d images labels.
            load_data tf d = Inr (images, labels) \<longrightarrow>
            (\<exists>label_file listing.
               labels_txt d = Some label_file \<and> files d = Some listing \<and>
               None \<notin> set listing \<and>
               (\<forall>i < length listing.
                  py_int (first_field (file_lines label_file ! i)) \<noteq> None))"
    by (intro allI impI) (rule load_data_Inr)
  have recovered: "\<forall>mdl1 sample rest opt w4 st0.
            to_dev L mdl = Inr mdl1 \<and> test_dataloader args = sample # rest \<and>
            new_adam L mdl1 = Inr opt \<and>
            w4 = w\<lparr>calls := calls w @ [(ModelTo, Returned), (NextBatch, Returned),
                                        (NewAdam, Returned), (NewLinearLR, Returned)]\<rparr> \<and>
            st0 = \<lparr>model = mdl1, opt_state = opt, lr = 1 / 100000,
                   scheduler = \<lparr>start_factor = 1, end_factor = 1 / 10,
                                 total_iters = int_epochs_times_0_7 (epochs args),
                                 last_epoch = 0\<rparr>,
                   postfix = []\<rparr> \<longrightarrow>
            (makedirs E w4 (save_dir args) = Some FileExistsError \<longrightarrow>
               (w', r) = train_loop L E args sample [0..<epochs args] st0
                           (w4\<lparr>calls := calls w4 @ [(MakeDirs, Raised FileExistsError)]\<rparr>)) \<and>
            (makedirs E w4 (save_dir args) = None \<longrightarrow>
               (w', r) = train_loop L E args sample [0..<epochs args] st0
                           (w4\<lparr>calls := calls w4 @ [(MakeDirs, Returned)]\<rparr>)) \<and>
            (\<forall>e. makedirs E w4 (save_dir args) = Some e \<and> e \<noteq> FileExistsError \<longrightarrow>
                 w' = w4\<lparr>calls := calls w4 @ [(MakeDirs, Raised e)]\<rparr> \<and> r = Inl e)"
    by (intro allI impI) (rule dirs)
  show ?thesis
    by (rule conjI [OF trace], rule conjI [OF recovered], rule conjI [OF missing returned])
qed


lemma run_dir_exists:
  "\<exists>w' st'. train_model id_learner env_dir_exists model0 args1 world0 = (w', Inr st') \<and>
     (MakeDirs, Raised FileExistsError) \<in> set (calls w') \<and> length (events w') = 4"
  by (simp add: run_defs args1_def env_dir_exists_def env_ok_def int_epochs_times_0_7_1
        str_nat.simps)

lemma run_dir_denied:
  "\<exists>w'. train_model id_learner env_dir_denied model0 args1 world0 = (w', Inl PermissionError) \<and>
     last (calls w') = (MakeDirs, Raised PermissionError) \<and> events w' = []"
  by (simp add: run_defs args1_def env_dir_denied_def env_ok_def int_epochs_times_0_7_1
        str_nat.simps)

lemma run_no_figure:
  "\<exists>w'. train_model id_learner env_no_figure model0 args1 world0 = (w', Inl PermissionError) \<and>
     last (calls w') = (WriterAdd, Raised PermissionError) \<and> length (events w') = 3"
  by (simp add: run_defs args1_def env_no_figure_def env_ok_def int_epochs_times_0_7_1
        str_nat.simps)

theorem only_existing_directory_is_recovered_witness:
  "(\<exists>w' st'.
      train_model id_learner env_dir_exists model0 args1 world0 = (w', Inr st') \<and>
      (MakeDirs, Raised FileExistsError) \<in> set (calls w') \<and> length (events w') = 4 \<and>
      (w', Inr st') =
        train_loop id_learner env_dir_exists args1 batch3 [0..<epochs args1]
          \<lparr>model = model0, opt_state = (), lr = 1 / 100000,
           scheduler = \<lparr>start_factor = 1, end_factor = 1 / 10,
                         total_iters = int_epochs_times_0_7 (epochs args1), last_epoch = 0\<rparr>,
           postfix = []\<rparr>
          (world0\<lparr>calls := [(ModelTo, Returned), (NextBatch, Returned), (NewAdam, Returned),
                              (NewLinearLR, Returned), (MakeDirs, Raised FileExistsError)]\<rparr>)) \<and>
   (\<exists>w'. train_model id_learner env_dir_denied model0 args1 world0 = (w', Inl PermissionError) \<and>
         last (calls w') = (MakeDirs, Raised PermissionError) \<and> events w' = [] \<and>
         calls w' \<noteq> []) \<and>
   (\<exists>w'. train_model id_learner env_no_figure model0 args1 world0 = (w', Inl PermissionError) \<and>
         last (calls w') = (WriterAdd, Raised PermissionError) \<and> length (events w') = 3 \<and>
         calls w' \<noteq> [])"
proof -
  let ?w4 = "world0\<lparr>calls := calls world0 @ [(ModelTo, Returned), (NextBatch, Returned),
                                              (NewAdam, Returned), (NewLinearLR, Returned)]\<rparr>"
  let ?st0 = "\<lparr>model = model0, opt_state = (), lr = 1 / 100000,
           scheduler = \<lparr>start_factor = 1, end_factor = 1 / 10,
                         total_iters = int_epochs_times_0_7 (epochs args1), last_epoch = 0\<rparr>,
           postfix = []\<rparr>"
  from run_dir_exists obtain w1 st1 where
    run1: "train_model id_learner env_dir_exists model0 args1 world0 = (w1, Inr st1)"
    and c1: "(MakeDirs, Raised FileExistsError) \<in> set (calls w1)"
    and e1: "length (events w1) = 4"
    by blast
  have h: "to_dev id_learner model0 = Inr model0 \<and> test_dataloader args1 = batch3 # [] \<and>
      new_adam id_learner model0 = Inr () \<and> ?w4 = ?w4 \<and> ?st0 = ?st0"
    by (simp add: id_learner_def pure_learner_def args1_def)
  have d: "makedirs env_dir_exists ?w4 (save_dir args1) = Some FileExistsError"
    by (simp add: env_dir_exists_def env_ok_def)
  from only_existing_directory_is_recovered [OF run1, THEN conjunct2, THEN conjunct1,
         THEN spec, THEN spec, THEN spec, THEN spec, THEN spec, THEN spec, THEN mp, OF h,
         THEN conjunct1, THEN mp, OF d]
  have loop: "(w1, Inr st1) =
        train_loop id_learner env_dir_exists args1 batch3 [0..<epochs args1] ?st0
          (world0\<lparr>calls := [(ModelTo, Returned), (NextBatch, Returned), (NewAdam, Returned),
                              (NewLinearLR, Returned), (MakeDirs, Raised FileExistsError)]\<rparr>)"
    by (simp add: world0_def)
  from run_dir_denied obtain w2 where
    run2: "train_model id_learner env_dir_denied model0 args1 world0 = (w2, Inl PermissionError)"
    and c2: "last (calls w2) = (MakeDirs, Raised PermissionError)" and e2: "events w2 = []"
    by blast
  from only_existing_directory_is_recovered [OF run2, THEN conjunct1]
  have n2: "calls w2 \<noteq> []" by (auto simp: world0_def)
  from run_no_figure obtain w3 where
    run3: "train_model id_learner env_no_figure model0 args1 world0 = (w3, Inl PermissionError)"
    and c3: "last (calls w3) = (WriterAdd, Raised PermissionError)"
    and e3: "length (events w3) = 3"
    by blast
  from only_existing_directory_is_recovered [OF run3, THEN conjunct1]
  have n3: "calls w3 \<noteq> []" by (auto simp: world0_def)
  from run1 c1 e1 loop have first: "\<exists>w' st'.
      train_model id_learner env_dir_exists model0 args1 world0 = (w', Inr st') \<and>
      (MakeDirs, Raised FileExistsError) \<in> set (calls w') \<and> length (events w') = 4 \<and>
      (w', Inr st') =
        train_loop id_learner env_dir_exists args1 batch3 [0..<epochs args1] ?st0
          (world0\<lparr>calls := [(ModelTo, Returned), (NextBatch, Returned), (NewAdam, Returned),
                              (NewLinearLR, Returned), (MakeDirs, Raised FileExistsError)]\<rparr>)"
    by blast
  from run2 c2 e2 n2 have second:
    "\<exists>w'. train_model id_learner env_dir_denied model0 args1 world0 = (w', Inl PermissionError) \<and>
         last (calls w') = (MakeDirs, Raised PermissionError) \<and> events w' = [] \<and>
         calls w' \<noteq> []"
    by blast
  from run3 c3 e3 n3 have third:
    "\<exists>w'. train_model id_learner env_no_figure model0 args1 world0 = (w', Inl PermissionError) \<and>
         last (calls w') = (WriterAdd, Raised PermissionError) \<and> length (events w') = 3 \<and>
         calls w' \<noteq> []"
    by blast
  from first second third show ?thesis by (intro conjI)
qed

end
